theory Spec2Isabelle
  imports Complex_Main "HOL-Library.Char_ord" "HOL-Library.List_Lexorder" "HOL-Library.Option_ord"
begin


section \<open>Python values\<close>

text \<open>
  The values that travel through \<^verbatim>\<open>app.py\<close>: what \<^verbatim>\<open>json.loads\<close> can return and what
  is handed to \<^verbatim>\<open>sqlite3\<close> as a statement parameter. \<open>PNone\<close> is Python's \<^verbatim>\<open>None\<close>
  (JSON \<^verbatim>\<open>null\<close>). A \<^verbatim>\<open>str\<close> is a \<open>string\<close>, one \<open>char\<close> per code point (code
  points up to 255); a \<^verbatim>\<open>float\<close> is the real number it denotes, an infinity or NaN
  (\<^verbatim>\<open>json.loads\<close> accepts \<^verbatim>\<open>Infinity\<close>, \<^verbatim>\<open>-Infinity\<close> and \<^verbatim>\<open>NaN\<close>); a \<^verbatim>\<open>dict\<close> is an
  association list in insertion order, looked up at its first binding of a key.
\<close>

datatype pyfloat = Finite real | PosInf | NegInf | NaN

datatype pyval =
    PNone
  | PBool bool
  | PInt int
  | PFloat pyfloat
  | PStr string
  | PList "pyval list"
  | PDict "(string \<times> pyval) list"

text \<open>
  The exceptions that can leave a function of the model. \<open>ProgrammingError\<close>,
  \<open>OperationalError\<close> and \<open>IntegrityError\<close> are those of \<^verbatim>\<open>sqlite3\<close>.
\<close>

datatype pyerr =
    TypeError
  | AttributeError
  | ValueError
  | OverflowError
  | ProgrammingError
  | OperationalError
  | IntegrityError

text \<open>Truth value of an object, as \<^verbatim>\<open>if result:\<close> tests it.\<close>

fun truthy :: "pyval \<Rightarrow> bool" where
  "truthy PNone = False"
| "truthy (PBool b) = b"
| "truthy (PInt i) = (i \<noteq> 0)"
| "truthy (PFloat f) = (f \<noteq> Finite 0)"
| "truthy (PStr s) = (s \<noteq> [])"
| "truthy (PList xs) = (xs \<noteq> [])"
| "truthy (PDict kvs) = (kvs \<noteq> [])"

text \<open>
  \<^verbatim>\<open>result.get(key, default)\<close>: only a dict has the method; on any other object the
  attribute lookup raises \<^verbatim>\<open>AttributeError\<close>.
\<close>

fun py_get :: "pyval \<Rightarrow> string \<Rightarrow> pyval \<Rightarrow> pyerr + pyval" where
  "py_get (PDict kvs) k d = Inr (case map_of kvs k of None \<Rightarrow> d | Some v \<Rightarrow> v)"
| "py_get _ k d = Inl AttributeError"

fun is_list :: "pyval \<Rightarrow> bool" where
  "is_list (PList xs) = True"
| "is_list _ = False"

section \<open>The articles table\<close>

text \<open>
  A value as SQLite stores it: NULL, an INTEGER, a REAL (never NaN) or a TEXT.
\<close>

datatype sqlval = SqlNull | SqlInteger int | SqlReal pyfloat | SqlText string

text \<open>
  The columns of \<^verbatim>\<open>CREATE TABLE articles\<close> in \<^verbatim>\<open>init_db\<close>. A TEXT column holds NULL or
  a text (\<open>string option\<close>; \<open>string\<close> where the column is NOT NULL): a number stored
  there is converted to its text. The REAL column \<^verbatim>\<open>sentiment_score\<close> and the INTEGER
  column \<^verbatim>\<open>is_read\<close> keep a text that is not a numeric literal as it is, so they hold
  an \<open>sqlval\<close>. The primary key \<^verbatim>\<open>id\<close> is \<open>id_col\<close>.
\<close>

record row =
  id_col :: int
  title :: string
  url :: string
  source :: string
  published_date :: "string option"
  fetched_date :: string
  content :: "string option"
  summary :: "string option"
  category :: "string option"
  sentiment :: "string option"
  sentiment_score :: sqlval
  bubble_indicators :: "string option"
  is_read :: sqlval

datatype column =
    Title | Url | Source | Published_date | Fetched_date | Content | Summary | Category
  | Sentiment | Sentiment_score | Bubble_indicators | Is_read

section \<open>The environment\<close>

text \<open>
  Everything \<^verbatim>\<open>app.py\<close> calls that is not code of the repository is a field of the
  environment: the libraries (\<^verbatim>\<open>json.loads\<close>, BeautifulSoup's \<^verbatim>\<open>get_text\<close>,
  \<^verbatim>\<open>feedparser.parse\<close>), the text-generation service, the clock, and the three
  conversions between floats and text (Python's \<^verbatim>\<open>repr\<close> of a float, used by
  \<^verbatim>\<open>json.dumps\<close>; SQLite's rendering of a REAL as TEXT; SQLite's reading of a numeric
  literal out of a TEXT). \<open>other_update\<close> is what SQLite makes of the statement text
  \<^verbatim>\<open>UPDATE articles SET <key> = ? WHERE id = ?\<close> when the spliced key is not the name of
  one of the twelve data columns, given the table, the value and the id: an error (an
  unknown name, a syntax error) or a new table (a crafted key is a statement of its own).
  A result \<open>None\<close> of a library call means that the call raised.
  The service, the feed parser and the clock are indexed by the number of calls made so
  far, so that they may answer differently each time.
\<close>

datatype pydate = NoDate | Date string | BadDate

record entry =
  e_title :: "string option"
  e_link :: "string option"
  e_published :: pydate
  e_updated :: pydate
  e_content :: "string option"
  e_summary :: "string option"

record env =
  HAS_ANTHROPIC :: bool
  service :: "nat \<Rightarrow> string \<Rightarrow> string \<Rightarrow> string option"
  json_loads :: "string \<Rightarrow> pyval option"
  get_text :: "string \<Rightarrow> string"
  feedparser_parse :: "nat \<Rightarrow> string \<Rightarrow> entry list option"
  clock :: "nat \<Rightarrow> string"
  float_repr :: "real \<Rightarrow> string"
  real_text :: "pyfloat \<Rightarrow> string"
  text_num :: "string \<Rightarrow> pyfloat option"
  other_update :: "string \<Rightarrow> row list \<Rightarrow> pyval \<Rightarrow> int \<Rightarrow> pyerr + row list"

section \<open>\<^verbatim>\<open>json.dumps\<close>\<close>

definition hex_digit :: "nat \<Rightarrow> char" where
  "hex_digit n = (if n < 10 then char_of (48 + n) else char_of (87 + n))"

definition hex4 :: "nat \<Rightarrow> string" where
  "hex4 n = [hex_digit (n div 4096 mod 16), hex_digit (n div 256 mod 16),
             hex_digit (n div 16 mod 16), hex_digit (n mod 16)]"

text \<open>
  The escapes of \<^verbatim>\<open>json.dumps\<close> with its default \<^verbatim>\<open>ensure_ascii=True\<close>: the quote and
  the backslash get a backslash, five control characters have a short form, every other
  character outside the printable ASCII range is written as \<^verbatim>\<open>\uXXXX\<close>.
\<close>

definition escape_char :: "char \<Rightarrow> string" where
  "escape_char c =
     (let n = (of_char c :: nat) in
      if n = 34 then [CHR 0x5C, CHR 0x22]
      else if n = 92 then [CHR 0x5C, CHR 0x5C]
      else if n = 10 then [CHR 0x5C, CHR ''n'']
      else if n = 13 then [CHR 0x5C, CHR ''r'']
      else if n = 9 then [CHR 0x5C, CHR ''t'']
      else if n = 8 then [CHR 0x5C, CHR ''b'']
      else if n = 12 then [CHR 0x5C, CHR ''f'']
      else if 32 \<le> n \<and> n \<le> 126 then [c]
      else CHR 0x5C # CHR ''u'' # hex4 n)"

definition encode_str :: "string \<Rightarrow> string" where
  "encode_str s = CHR 0x22 # concat (map escape_char s) @ [CHR 0x22]"

function str_nat :: "nat \<Rightarrow> string" where
  "str_nat n = (if n < 10 then [char_of (48 + n)] else str_nat (n div 10) @ [char_of (48 + n mod 10)])"
  by pat_completeness auto
termination
  by (relation "measure (\<lambda>n. n)") auto

definition str_int :: "int \<Rightarrow> string" where
  "str_int i = (if i < 0 then CHR ''-'' # str_nat (nat (- i)) else str_nat (nat i))"

fun json_dumps :: "env \<Rightarrow> pyval \<Rightarrow> string"
  and dumps_elems :: "env \<Rightarrow> pyval list \<Rightarrow> string"
  and dumps_items :: "env \<Rightarrow> (string \<times> pyval) list \<Rightarrow> string" where
  "json_dumps E PNone = ''null''"
| "json_dumps E (PBool b) = (if b then ''true'' else ''false'')"
| "json_dumps E (PInt i) = str_int i"
| "json_dumps E (PFloat f) =
     (case f of Finite r \<Rightarrow> float_repr E r | PosInf \<Rightarrow> ''Infinity''
      | NegInf \<Rightarrow> ''-Infinity'' | NaN \<Rightarrow> ''NaN'')"
| "json_dumps E (PStr s) = encode_str s"
| "json_dumps E (PList xs) = ''['' @ dumps_elems E xs @ '']''"
| "json_dumps E (PDict kvs) = ''{'' @ dumps_items E kvs @ ''}''"
| "dumps_elems E [] = []"
| "dumps_elems E [x] = json_dumps E x"
| "dumps_elems E (x # y # ys) = json_dumps E x @ '', '' @ dumps_elems E (y # ys)"
| "dumps_items E [] = []"
| "dumps_items E [(k, v)] = encode_str k @ '': '' @ json_dumps E v"
| "dumps_items E ((k, v) # kv # kvs) =
     encode_str k @ '': '' @ json_dumps E v @ '', '' @ dumps_items E (kv # kvs)"

section \<open>Binding and column affinity\<close>

text \<open>
  \<^verbatim>\<open>sqlite3\<close> binds \<^verbatim>\<open>None\<close> as NULL, a \<^verbatim>\<open>bool\<close> or \<^verbatim>\<open>int\<close> as INTEGER (it raises
  \<^verbatim>\<open>OverflowError\<close> outside 64 bits), a \<^verbatim>\<open>float\<close> as REAL, but NaN as NULL, and a
  \<^verbatim>\<open>str\<close> as TEXT; it refuses a \<^verbatim>\<open>list\<close> or a \<^verbatim>\<open>dict\<close> with \<^verbatim>\<open>ProgrammingError\<close>
  (\<^verbatim>\<open>InterfaceError\<close> before Python 3.11).
\<close>

fun bind :: "pyval \<Rightarrow> pyerr + sqlval" where
  "bind PNone = Inr SqlNull"
| "bind (PBool b) = Inr (SqlInteger (if b then 1 else 0))"
| "bind (PInt i) =
     (if - (2 ^ 63) \<le> i \<and> i < 2 ^ 63 then Inr (SqlInteger i) else Inl OverflowError)"
| "bind (PFloat f) = (if f = NaN then Inr SqlNull else Inr (SqlReal f))"
| "bind (PStr s) = Inr (SqlText s)"
| "bind (PList xs) = Inl ProgrammingError"
| "bind (PDict kvs) = Inl ProgrammingError"

text \<open>Column affinity: how SQLite converts a value on its way into a column.\<close>

fun text_affinity :: "env \<Rightarrow> sqlval \<Rightarrow> string option" where
  "text_affinity E SqlNull = None"
| "text_affinity E (SqlInteger i) = Some (str_int i)"
| "text_affinity E (SqlReal f) = Some (real_text E f)"
| "text_affinity E (SqlText s) = Some s"

fun real_affinity :: "env \<Rightarrow> sqlval \<Rightarrow> sqlval" where
  "real_affinity E SqlNull = SqlNull"
| "real_affinity E (SqlInteger i) = SqlReal (Finite (of_int i))"
| "real_affinity E (SqlReal f) = SqlReal f"
| "real_affinity E (SqlText s) = (case text_num E s of None \<Rightarrow> SqlText s | Some f \<Rightarrow> SqlReal f)"

fun real_to_integer :: "pyfloat \<Rightarrow> sqlval" where
  "real_to_integer (Finite r) =
     (if r = of_int \<lfloor>r\<rfloor> \<and> - (2 ^ 63) \<le> \<lfloor>r\<rfloor> \<and> \<lfloor>r\<rfloor> < 2 ^ 63 then SqlInteger \<lfloor>r\<rfloor>
      else SqlReal (Finite r))"
| "real_to_integer f = SqlReal f"

fun integer_affinity :: "env \<Rightarrow> sqlval \<Rightarrow> sqlval" where
  "integer_affinity E SqlNull = SqlNull"
| "integer_affinity E (SqlInteger i) = SqlInteger i"
| "integer_affinity E (SqlReal f) = real_to_integer f"
| "integer_affinity E (SqlText s) =
     (case text_num E s of None \<Rightarrow> SqlText s | Some f \<Rightarrow> real_to_integer f)"

text \<open>
  The state of the program: the table (rows in rowid order), the AUTOINCREMENT counter
  of the table (the largest id ever given out; rowids are left unbounded), the global
  \<^verbatim>\<open>API_KEY\<close>, and how often the service, the clock and the feed parser have been
  called.
\<close>

record world =
  articles :: "row list"
  seq :: int
  API_KEY :: string
  calls :: nat
  ticks :: nat
  fetches :: nat

section \<open>Insert\<close>

text \<open>
  The payload of \<^verbatim>\<open>add_article\<close>: \<^verbatim>\<open>article['title']\<close>, \<^verbatim>\<open>article['url']\<close>,
  \<^verbatim>\<open>article['source']\<close>, \<^verbatim>\<open>article.get('published_date')\<close> and
  \<^verbatim>\<open>article.get('content')\<close>, each \<^verbatim>\<open>None\<close> or a \<^verbatim>\<open>str\<close>. (A dict without one of the
  first three keys, or with a value that \<^verbatim>\<open>sqlite3\<close> cannot bind, is outside this type.)
\<close>

record payload =
  p_title :: "string option"
  p_url :: "string option"
  p_source :: "string option"
  p_published_date :: "string option"
  p_content :: "string option"

text \<open>
  \<^verbatim>\<open>INSERT INTO articles (title, url, source, published_date, fetched_date, content)\<close>:
  the statement fails with \<^verbatim>\<open>IntegrityError\<close> when a NOT NULL column would be NULL or
  the url is already in the table, and then changes nothing. The other columns get their
  defaults: NULL, and 0 for \<^verbatim>\<open>is_read\<close>.
\<close>

definition sql_insert :: "world \<Rightarrow> payload \<Rightarrow> string \<Rightarrow> pyerr + world" where
  "sql_insert w a now =
     (case (p_title a, p_url a, p_source a) of
        (Some t, Some u, Some s) \<Rightarrow>
          if u \<in> url ` set (articles w) then Inl IntegrityError
          else Inr (w\<lparr>articles := articles w @
                 [\<lparr>id_col = seq w + 1, title = t, url = u, source = s,
                   published_date = p_published_date a, fetched_date = now,
                   content = p_content a, summary = None, category = None,
                   sentiment = None, sentiment_score = SqlNull,
                   bubble_indicators = None, is_read = SqlInteger 0\<rparr>],
                 seq := seq w + 1\<rparr>)
      | _ \<Rightarrow> Inl IntegrityError)"

text \<open>
  \<^verbatim>\<open>add_article\<close>: reads the clock for \<^verbatim>\<open>fetched_date\<close>, returns \<^verbatim>\<open>cursor.lastrowid\<close>,
  or \<^verbatim>\<open>None\<close> from the handler of \<^verbatim>\<open>sqlite3.IntegrityError\<close>.
\<close>

definition add_article :: "env \<Rightarrow> world \<Rightarrow> payload \<Rightarrow> world \<times> int option" where
  "add_article E w a =
     (let now = clock E (ticks w); w1 = w\<lparr>ticks := ticks w + 1\<rparr>
      in case sql_insert w1 a now of
           Inl e \<Rightarrow> (w1, None)
         | Inr w2 \<Rightarrow> (w2, Some (seq w2)))"

section \<open>Reads\<close>

text \<open>
  \<^verbatim>\<open>LIMIT ?\<close>: SQLite returns at most that many rows, and all of them when the limit is
  negative.
\<close>

definition sql_limit :: "int \<Rightarrow> 'a list \<Rightarrow> 'a list" where
  "sql_limit n xs = (if n < 0 then xs else take (nat n) xs)"

text \<open>
  \<^verbatim>\<open>ORDER BY k DESC\<close>: rows with the larger key first, text compared character by
  character, NULL below every text. SQLite does not fix the order of rows with equal
  keys; the model keeps them in rowid order.
\<close>

fun insert_desc :: "('a \<Rightarrow> 'k::linorder) \<Rightarrow> 'a \<Rightarrow> 'a list \<Rightarrow> 'a list" where
  "insert_desc k x [] = [x]"
| "insert_desc k x (y # ys) = (if k y \<le> k x then x # y # ys else y # insert_desc k x ys)"

definition order_by_desc :: "('a \<Rightarrow> 'k::linorder) \<Rightarrow> 'a list \<Rightarrow> 'a list" where
  "order_by_desc k xs = foldr (insert_desc k) xs []"

text \<open>
  The rows a read returns are the rows of the table as they are: \<^verbatim>\<open>dict(row)\<close> copies
  each column, a TEXT cell as \<^verbatim>\<open>None\<close> or a \<^verbatim>\<open>str\<close>.
\<close>

definition get_article :: "world \<Rightarrow> int \<Rightarrow> row option" where
  "get_article w article_id = find (\<lambda>r. id_col r = article_id) (articles w)"

text \<open>
  \<^verbatim>\<open>get_articles(limit, sentiment, category)\<close>: a filter applies only when its argument
  is truthy (neither \<^verbatim>\<open>None\<close> nor the empty string).
\<close>

definition get_articles :: "world \<Rightarrow> int \<Rightarrow> string option \<Rightarrow> string option \<Rightarrow> row list" where
  "get_articles w limit sentiment_arg category_arg =
     sql_limit limit (order_by_desc published_date
       (filter (\<lambda>r. (case category_arg of None \<Rightarrow> True
                       | Some c \<Rightarrow> c = [] \<or> category r = Some c))
         (filter (\<lambda>r. (case sentiment_arg of None \<Rightarrow> True
                         | Some s \<Rightarrow> s = [] \<or> sentiment r = Some s))
           (articles w))))"

definition get_unprocessed_articles :: "world \<Rightarrow> int \<Rightarrow> row list" where
  "get_unprocessed_articles w limit =
     sql_limit limit (order_by_desc fetched_date (filter (\<lambda>r. summary r = None) (articles w)))"

text \<open>The Python value that a read hands back for a TEXT cell.\<close>

fun text_value :: "string option \<Rightarrow> pyval" where
  "text_value None = PNone"
| "text_value (Some s) = PStr s"

section \<open>Update\<close>

text \<open>
  Storing a bound value into one column of a row. The NOT NULL columns refuse NULL with
  \<^verbatim>\<open>IntegrityError\<close>.
\<close>

definition not_null :: "string option \<Rightarrow> (string \<Rightarrow> row) \<Rightarrow> pyerr + row" where
  "not_null t f = (case t of None \<Rightarrow> Inl IntegrityError | Some s \<Rightarrow> Inr (f s))"

fun set_column :: "env \<Rightarrow> column \<Rightarrow> sqlval \<Rightarrow> row \<Rightarrow> pyerr + row" where
  "set_column E Title v r = not_null (text_affinity E v) (\<lambda>s. r\<lparr>title := s\<rparr>)"
| "set_column E Url v r = not_null (text_affinity E v) (\<lambda>s. r\<lparr>url := s\<rparr>)"
| "set_column E Source v r = not_null (text_affinity E v) (\<lambda>s. r\<lparr>source := s\<rparr>)"
| "set_column E Published_date v r = Inr (r\<lparr>published_date := text_affinity E v\<rparr>)"
| "set_column E Fetched_date v r = not_null (text_affinity E v) (\<lambda>s. r\<lparr>fetched_date := s\<rparr>)"
| "set_column E Content v r = Inr (r\<lparr>content := text_affinity E v\<rparr>)"
| "set_column E Summary v r = Inr (r\<lparr>summary := text_affinity E v\<rparr>)"
| "set_column E Category v r = Inr (r\<lparr>category := text_affinity E v\<rparr>)"
| "set_column E Sentiment v r = Inr (r\<lparr>sentiment := text_affinity E v\<rparr>)"
| "set_column E Sentiment_score v r = Inr (r\<lparr>sentiment_score := real_affinity E v\<rparr>)"
| "set_column E Bubble_indicators v r = Inr (r\<lparr>bubble_indicators := text_affinity E v\<rparr>)"
| "set_column E Is_read v r = Inr (r\<lparr>is_read := integer_affinity E v\<rparr>)"

text \<open>
  The names of the twelve data columns. (The primary key \<^verbatim>\<open>id\<close> is not among them: a
  statement that assigns to it is left to \<open>other_update\<close>, as is every other key text.)
\<close>

definition column_of :: "string \<Rightarrow> column option" where
  "column_of key =
     map_of [(''title'', Title), (''url'', Url), (''source'', Source),
             (''published_date'', Published_date), (''fetched_date'', Fetched_date),
             (''content'', Content), (''summary'', Summary), (''category'', Category),
             (''sentiment'', Sentiment), (''sentiment_score'', Sentiment_score),
             (''bubble_indicators'', Bubble_indicators), (''is_read'', Is_read)] key"

text \<open>
  The statement \<^verbatim>\<open>UPDATE articles SET col = ? WHERE id = ?\<close> for a data column, once
  both parameters are bound. No row with that id: nothing happens. Otherwise the row is
  rewritten, unless a NOT NULL column would become NULL or the url would no longer be
  unique.
\<close>

definition update_column :: "env \<Rightarrow> row list \<Rightarrow> column \<Rightarrow> sqlval \<Rightarrow> int \<Rightarrow> pyerr + row list" where
  "update_column E rows col v article_id =
     (case find (\<lambda>r. id_col r = article_id) rows of
        None \<Rightarrow> Inr rows
      | Some r \<Rightarrow>
          (case set_column E col v r of
             Inl e \<Rightarrow> Inl e
           | Inr r' \<Rightarrow>
               if col = Url \<and> (\<exists>x \<in> set rows. id_col x \<noteq> article_id \<and> url x = url r')
               then Inl IntegrityError
               else Inr (map (\<lambda>x. if id_col x = article_id then r' else x) rows)))"

text \<open>
  \<^verbatim>\<open>conn.execute(f"UPDATE articles SET {key} = ? WHERE id = ?", (value, article_id))\<close>:
  the key is spliced into the statement text. When it names a data column, the value and
  then the id are bound, each of which can raise, and the statement runs; any other key
  text is a matter of \<open>other_update\<close>.
\<close>

definition sql_update :: "env \<Rightarrow> row list \<Rightarrow> string \<Rightarrow> pyval \<Rightarrow> int \<Rightarrow> pyerr + row list" where
  "sql_update E rows key v article_id =
     (case column_of key of
        None \<Rightarrow> other_update E key rows v article_id
      | Some col \<Rightarrow>
          (case bind v of
             Inl e \<Rightarrow> Inl e
           | Inr sv \<Rightarrow>
               (case bind (PInt article_id) of
                  Inl e \<Rightarrow> Inl e
                | Inr i \<Rightarrow> update_column E rows col sv article_id)))"

text \<open>
  The loop of \<^verbatim>\<open>update_article\<close> over \<^verbatim>\<open>updates.items()\<close>: a list is replaced by its
  JSON text, then the statement is executed.
\<close>

fun run_updates :: "env \<Rightarrow> row list \<Rightarrow> int \<Rightarrow> (string \<times> pyval) list \<Rightarrow> pyerr + row list" where
  "run_updates E rows article_id [] = Inr rows"
| "run_updates E rows article_id ((key, v) # rest) =
     (case sql_update E rows key (if is_list v then PStr (json_dumps E v) else v) article_id of
        Inl e \<Rightarrow> Inl e
      | Inr rows' \<Rightarrow> run_updates E rows' article_id rest)"

text \<open>
  \<^verbatim>\<open>update_article\<close>: the statements run in one transaction that is committed after the
  loop. When a statement raises, the exception leaves the function before
  \<^verbatim>\<open>conn.commit()\<close> and the table keeps its old contents.
\<close>

definition update_article :: "env \<Rightarrow> world \<Rightarrow> int \<Rightarrow> (string \<times> pyval) list \<Rightarrow> world \<times> (pyerr + unit)" where
  "update_article E w article_id updates =
     (case run_updates E (articles w) article_id updates of
        Inl e \<Rightarrow> (w, Inl e)
      | Inr rows' \<Rightarrow> (w\<lparr>articles := rows'\<rparr>, Inr ()))"

section \<open>The enrichment client\<close>

text \<open>\<^verbatim>\<open>str.find\<close> and \<^verbatim>\<open>str.rfind\<close> of one character: the index, or -1.\<close>

fun find_char :: "char \<Rightarrow> string \<Rightarrow> int" where
  "find_char c [] = - 1"
| "find_char c (x # xs) =
     (if x = c then 0 else (let i = find_char c xs in if i < 0 then - 1 else i + 1))"

fun rfind_char :: "char \<Rightarrow> string \<Rightarrow> int" where
  "rfind_char c [] = - 1"
| "rfind_char c (x # xs) =
     (let i = rfind_char c xs in if 0 \<le> i then i + 1 else if x = c then 0 else - 1)"

text \<open>\<^verbatim>\<open>s[start:end]\<close> for indices that are not negative.\<close>

definition slice :: "string \<Rightarrow> int \<Rightarrow> int \<Rightarrow> string" where
  "slice s start end = drop (nat start) (take (nat end) s)"

text \<open>
  What \<^verbatim>\<open>analyze_article\<close> does with the reply text, inside its \<^verbatim>\<open>try\<close>: an exception
  of \<^verbatim>\<open>json.loads\<close> is caught and the function falls through to \<^verbatim>\<open>return None\<close>.
\<close>

definition parse_reply :: "env \<Rightarrow> string \<Rightarrow> pyval" where
  "parse_reply E response =
     (let start = find_char CHR ''{'' response;
          end = rfind_char CHR ''}'' response + 1
      in if start \<ge> 0 \<and> end > start
         then (case json_loads E (slice response start end) of None \<Rightarrow> PNone | Some v \<Rightarrow> v)
         else PNone)"

text \<open>
  \<^verbatim>\<open>analyze_article\<close>. Without a key (or without the client library) it returns
  \<^verbatim>\<open>None\<close> at once. The prompt is built before the \<^verbatim>\<open>try\<close>: its text is fixed but for
  the title and \<^verbatim>\<open>article.get('content', '')[:2500]\<close>, the two arguments the service is
  given here, and slicing the \<^verbatim>\<open>None\<close> of a NULL content raises \<^verbatim>\<open>TypeError\<close>.
  \<open>service\<close> stands for \<^verbatim>\<open>client.messages.create(...)\<close> followed by
  \<^verbatim>\<open>message.content[0].text\<close>; when either raises, the handler prints and the function
  returns \<^verbatim>\<open>None\<close>.
\<close>

definition analyze_article :: "env \<Rightarrow> world \<Rightarrow> row \<Rightarrow> world \<times> (pyerr + pyval)" where
  "analyze_article E w article =
     (if API_KEY w = [] \<or> \<not> HAS_ANTHROPIC E then (w, Inr PNone)
      else (case content article of
              None \<Rightarrow> (w, Inl TypeError)
            | Some c \<Rightarrow>
                (case service E (calls w) (title article) (take 2500 c) of
                   None \<Rightarrow> (w\<lparr>calls := calls w + 1\<rparr>, Inr PNone)
                 | Some response \<Rightarrow> (w\<lparr>calls := calls w + 1\<rparr>, Inr (parse_reply E response)))))"

section \<open>The enrichment pipeline\<close>

text \<open>
  The dict that \<^verbatim>\<open>process_unanalyzed\<close> passes to \<^verbatim>\<open>update_article\<close>, in the order of
  its keys.
\<close>

definition analysis_updates :: "env \<Rightarrow> pyval \<Rightarrow> pyerr + (string \<times> pyval) list" where
  "analysis_updates E result =
     (case py_get result ''bubble_indicators'' (PList []) of
        Inl e \<Rightarrow> Inl e
      | Inr bubble \<Rightarrow>
          (let bubble' = (if is_list bubble then PStr (json_dumps E bubble) else bubble)
           in case (py_get result ''summary'' PNone, py_get result ''category'' PNone,
                    py_get result ''sentiment'' PNone, py_get result ''sentiment_score'' PNone) of
                (Inr s, Inr c, Inr t, Inr sc) \<Rightarrow>
                  Inr [(''summary'', s), (''category'', c), (''sentiment'', t),
                       (''sentiment_score'', sc), (''bubble_indicators'', bubble')]
              | _ \<Rightarrow> Inl AttributeError))"

text \<open>
  The loop of \<^verbatim>\<open>process_unanalyzed\<close> over the rows selected at its start. An exception
  ends the whole function; what earlier iterations have committed stays.
\<close>

fun process_loop :: "env \<Rightarrow> world \<Rightarrow> row list \<Rightarrow> nat \<Rightarrow> world \<times> (pyerr + nat)" where
  "process_loop E w [] processed = (w, Inr processed)"
| "process_loop E w (article # rest) processed =
     (case analyze_article E w article of
        (w1, Inl e) \<Rightarrow> (w1, Inl e)
      | (w1, Inr result) \<Rightarrow>
          if truthy result then
            (case analysis_updates E result of
               Inl e \<Rightarrow> (w1, Inl e)
             | Inr updates \<Rightarrow>
                 (case update_article E w1 (id_col article) updates of
                    (w2, Inl e) \<Rightarrow> (w2, Inl e)
                  | (w2, Inr u) \<Rightarrow> process_loop E w2 rest (processed + 1)))
          else process_loop E w1 rest processed)"

definition process_unanalyzed :: "env \<Rightarrow> world \<Rightarrow> world \<times> (pyerr + nat)" where
  "process_unanalyzed E w = process_loop E w (get_unprocessed_articles w 5) 0"

section \<open>Feed fetching and the ingestion pipeline\<close>

text \<open>\<^verbatim>\<open>config.py\<close>.\<close>

record feed =
  f_name :: string
  f_url :: string
  f_category :: string

definition FEEDS :: "feed list" where
  "FEEDS =
     [\<lparr>f_name = ''TechCrunch AI'',
       f_url = ''https://techcrunch.com/category/artificial-intelligence/feed/'',
       f_category = ''AI Industry''\<rparr>,
      \<lparr>f_name = ''MIT Technology Review'',
       f_url = ''https://www.technologyreview.com/feed/'',
       f_category = ''AI Research''\<rparr>,
      \<lparr>f_name = ''The Verge AI'',
       f_url = ''https://www.theverge.com/rss/ai-artificial-intelligence/index.xml'',
       f_category = ''AI Industry''\<rparr>,
      \<lparr>f_name = ''Ars Technica'',
       f_url = ''https://feeds.arstechnica.com/arstechnica/technology-lab'',
       f_category = ''AI Industry''\<rparr>,
      \<lparr>f_name = ''VentureBeat AI'',
       f_url = ''https://venturebeat.com/category/ai/feed/'',
       f_category = ''AI Business''\<rparr>,
      \<lparr>f_name = ''Hacker News AI'',
       f_url = ''https://hnrss.org/newest?q=AI+OR+artificial+intelligence+OR+LLM+OR+OpenAI'',
       f_category = ''AI Community''\<rparr>]"

definition MAX_ARTICLES_PER_FEED :: nat where
  "MAX_ARTICLES_PER_FEED = 15"

text \<open>
  An entry as \<^verbatim>\<open>feedparser\<close> delivers it (record \<open>entry\<close> above). \<open>e_published\<close> and
  \<open>e_updated\<close> are \<open>NoDate\<close> when the attribute is missing or falsy, \<open>Date s\<close> when
  \<^verbatim>\<open>datetime(*t[:6]).isoformat()\<close> gives \<open>s\<close>, \<open>BadDate\<close> when \<^verbatim>\<open>datetime\<close> rejects the
  tuple. \<open>e_content\<close> is \<^verbatim>\<open>entry.content[0].get('value', '')\<close> when the entry has a
  non-empty \<^verbatim>\<open>content\<close>; \<open>e_summary\<close> is \<^verbatim>\<open>entry.summary\<close> when the entry has one.
\<close>

definition entry_published :: "entry \<Rightarrow> pyerr + string option" where
  "entry_published e =
     (case e_published e of
        Date s \<Rightarrow> Inr (Some s)
      | BadDate \<Rightarrow> Inl ValueError
      | NoDate \<Rightarrow>
          (case e_updated e of
             Date s \<Rightarrow> Inr (Some s)
           | BadDate \<Rightarrow> Inl ValueError
           | NoDate \<Rightarrow> Inr None))"

definition entry_content :: "entry \<Rightarrow> string" where
  "entry_content e =
     (case e_content e of
        Some v \<Rightarrow> v
      | None \<Rightarrow> (case e_summary e of Some s \<Rightarrow> s | None \<Rightarrow> []))"

text \<open>
  The lines under \<^verbatim>\<open># Clean HTML\<close> in \<^verbatim>\<open>fetch_feed\<close>:
  \<^verbatim>\<open>soup.get_text(separator=' ', strip=True)[:3000]\<close>, when the content is not empty.
\<close>

definition clean_html :: "env \<Rightarrow> string \<Rightarrow> string" where
  "clean_html E c = (if c \<noteq> [] then take 3000 (get_text E c) else c)"

text \<open>
  The loop of \<^verbatim>\<open>fetch_feed\<close> over the entries, threading the number of clock readings.
  The result is \<open>None\<close> when an entry raises: the handler around the whole function then
  returns the empty list for the feed.
\<close>

fun fetch_entries :: "env \<Rightarrow> string \<Rightarrow> nat \<Rightarrow> entry list \<Rightarrow> nat \<times> payload list option" where
  "fetch_entries E name t [] = (t, Some [])"
| "fetch_entries E name t (e # es) =
     (case entry_published e of
        Inl err \<Rightarrow> (t, None)
      | Inr published \<Rightarrow>
          (let c = clean_html E (entry_content e);
               (pd, t1) = (case published of
                             Some s \<Rightarrow> if s \<noteq> [] then (s, t) else (clock E t, t + 1)
                           | None \<Rightarrow> (clock E t, t + 1));
               a = \<lparr>p_title = Some (case e_title e of None \<Rightarrow> ''Untitled'' | Some x \<Rightarrow> x),
                    p_url = Some (case e_link e of None \<Rightarrow> [] | Some x \<Rightarrow> x),
                    p_source = Some name,
                    p_published_date = Some pd,
                    p_content = Some c\<rparr>
           in case fetch_entries E name t1 es of
                (t2, None) \<Rightarrow> (t2, None)
              | (t2, Some as) \<Rightarrow> (t2, Some (a # as))))"

definition fetch_feed :: "env \<Rightarrow> world \<Rightarrow> feed \<Rightarrow> world \<times> payload list" where
  "fetch_feed E w feed_config =
     (case feedparser_parse E (fetches w) (f_url feed_config) of
        None \<Rightarrow> (w\<lparr>fetches := fetches w + 1\<rparr>, [])
      | Some entries \<Rightarrow>
          (case fetch_entries E (f_name feed_config) (ticks w) (take MAX_ARTICLES_PER_FEED entries) of
             (t, r) \<Rightarrow>
               (w\<lparr>fetches := fetches w + 1, ticks := t\<rparr>,
                case r of None \<Rightarrow> [] | Some as \<Rightarrow> as)))"

fun fetch_feeds :: "env \<Rightarrow> world \<Rightarrow> feed list \<Rightarrow> payload list \<Rightarrow> world \<times> payload list" where
  "fetch_feeds E w [] all_articles = (w, all_articles)"
| "fetch_feeds E w (f # fs) all_articles =
     (case fetch_feed E w f of (w1, as) \<Rightarrow> fetch_feeds E w1 fs (all_articles @ as))"

definition fetch_all_feeds :: "env \<Rightarrow> world \<Rightarrow> world \<times> payload list" where
  "fetch_all_feeds E w = fetch_feeds E w FEEDS []"

text \<open>
  The loop of \<^verbatim>\<open>refresh_feeds\<close>: \<^verbatim>\<open>if article.get('url') and add_article(article)\<close>.
  An article whose url is \<^verbatim>\<open>None\<close> or empty is not handed to \<^verbatim>\<open>add_article\<close>; the
  result of \<^verbatim>\<open>add_article\<close> counts when it is truthy.
\<close>

fun refresh_loop :: "env \<Rightarrow> world \<Rightarrow> payload list \<Rightarrow> nat \<Rightarrow> world \<times> nat" where
  "refresh_loop E w [] new_count = (w, new_count)"
| "refresh_loop E w (a # as) new_count =
     (if p_url a \<noteq> None \<and> p_url a \<noteq> Some [] then
        (case add_article E w a of
           (w1, r) \<Rightarrow>
             if r \<noteq> None \<and> r \<noteq> Some 0 then refresh_loop E w1 as (new_count + 1)
             else refresh_loop E w1 as new_count)
      else refresh_loop E w as new_count)"

definition refresh_feeds :: "env \<Rightarrow> world \<Rightarrow> world \<times> nat" where
  "refresh_feeds E w = (case fetch_all_feeds E w of (w1, as) \<Rightarrow> refresh_loop E w1 as 0)"

section \<open>The routes that change the state\<close>

text \<open>\<^verbatim>\<open>api_article\<close> marks the article as read when it exists.\<close>

definition api_article :: "env \<Rightarrow> world \<Rightarrow> int \<Rightarrow> world \<times> (pyerr + row option)" where
  "api_article E w article_id =
     (case get_article w article_id of
        None \<Rightarrow> (w, Inr None)
      | Some article \<Rightarrow>
          (case update_article E w article_id [(''is_read'', PInt 1)] of
             (w1, Inl e) \<Rightarrow> (w1, Inl e)
           | (w1, Inr u) \<Rightarrow> (w1, Inr (Some article))))"

text \<open>\<^verbatim>\<open>api_analyze\<close> runs the pipeline when a key is set.\<close>

definition api_analyze :: "env \<Rightarrow> world \<Rightarrow> world \<times> (pyerr + nat)" where
  "api_analyze E w = (if API_KEY w = [] then (w, Inr 0) else process_unanalyzed E w)"

text \<open>\<^verbatim>\<open>api_config\<close> with a POST that carries a key (a \<^verbatim>\<open>str\<close>).\<close>

definition api_config :: "world \<Rightarrow> string \<Rightarrow> world" where
  "api_config w k = w\<lparr>API_KEY := k\<rparr>"

text \<open>
  \<^verbatim>\<open>init_db\<close> on a fresh database file, with the key found in the process environment
  or in \<^verbatim>\<open>config.py\<close>.
\<close>

definition init_db :: "string \<Rightarrow> world" where
  "init_db k = \<lparr>articles = [], seq = 0, API_KEY = k, calls = 0, ticks = 0, fetches = 0\<rparr>"

text \<open>The states the program can be in: what its entry points make of the initial state.\<close>

inductive reachable :: "env \<Rightarrow> world \<Rightarrow> bool" for E :: env where
  reach_init: "reachable E (init_db k)"
| reach_refresh: "reachable E w \<Longrightarrow> reachable E (fst (refresh_feeds E w))"
| reach_analyze: "reachable E w \<Longrightarrow> reachable E (fst (api_analyze E w))"
| reach_process: "reachable E w \<Longrightarrow> reachable E (fst (process_unanalyzed E w))"
| reach_article: "reachable E w \<Longrightarrow> reachable E (fst (api_article E w i))"
| reach_config: "reachable E w \<Longrightarrow> reachable E (api_config w k)"

section \<open>Properties and sample data\<close>

text \<open>
  What the table definition guarantees in every state: the primary key and the url are
  unique, and the AUTOINCREMENT counter is the largest id given out so far.
\<close>

definition wf_store :: "world \<Rightarrow> bool" where
  "wf_store w \<longleftrightarrow>
     distinct (map id_col (articles w)) \<and> distinct (map url (articles w)) \<and>
     0 \<le> seq w \<and> (\<forall>r \<in> set (articles w). 0 < id_col r \<and> id_col r \<le> seq w)"

text \<open>
  A payload that the INSERT statement refuses: a NOT NULL column without a value, or a
  url that is already stored.
\<close>

definition violates_constraint :: "world \<Rightarrow> payload \<Rightarrow> bool" where
  "violates_constraint w a \<longleftrightarrow>
     p_title a = None \<or> p_url a = None \<or> p_source a = None \<or>
     (\<exists>u. p_url a = Some u \<and> u \<in> url ` set (articles w))"

text \<open>
  An environment in which the service and the feeds are unreachable and SQLite refuses
  every key that is not a column name, and a store that holds the article of the
  scenario with url \<^verbatim>\<open>http://a/1\<close>.
\<close>

definition offline_env :: env where
  "offline_env =
     \<lparr>HAS_ANTHROPIC = True, service = (\<lambda>n t c. None), json_loads = (\<lambda>s. None),
      get_text = (\<lambda>s. s), feedparser_parse = (\<lambda>n u. None),
      clock = (\<lambda>n. ''2024-01-01T00:00:00''),
      float_repr = (\<lambda>r. ''0.5''), real_text = (\<lambda>f. ''0.5''), text_num = (\<lambda>s. None),
      other_update = (\<lambda>key rows v i. Inl OperationalError)\<rparr>"

definition article1 :: payload where
  "article1 =
     \<lparr>p_title = Some ''T1'', p_url = Some ''http://a/1'', p_source = Some ''S'',
      p_published_date = Some ''2024-01-01T00:00:00'', p_content = Some ''Hello world''\<rparr>"

definition world1 :: world where
  "world1 = fst (add_article offline_env (init_db []) article1)"

text \<open>
  A value that \<^verbatim>\<open>update_article\<close> can hand to SQLite: a list (it is serialised
  first), or anything \<^verbatim>\<open>sqlite3\<close> binds.
\<close>

definition bindable :: "pyval \<Rightarrow> bool" where
  "bindable v \<longleftrightarrow> is_list v \<or> (case bind v of Inl e \<Rightarrow> False | Inr sv \<Rightarrow> True)"

text \<open>An id that \<^verbatim>\<open>sqlite3\<close> can bind: an int within 64 bits.\<close>

definition bindable_id :: "int \<Rightarrow> bool" where
  "bindable_id i \<longleftrightarrow> - (2 ^ 63) \<le> i \<and> i < 2 ^ 63"

text \<open>
  The reply of the scenario: prose around one JSON object, and the dict that
  \<^verbatim>\<open>json.loads\<close> returns for the text of the object.
\<close>

definition scenario_body :: string where
  \<open>scenario_body =
     ''"summary":"s","category":"AI Market","sentiment":"Bullish","sentiment_score":0.5,"bubble_indicators":["x"]''\<close>

definition scenario_text :: string where
  "scenario_text = CHR ''{'' # scenario_body @ ''}''"

definition scenario_reply :: string where
  "scenario_reply = ''Here you go: '' @ scenario_text @ '' thanks''"

definition scenario_result :: pyval where
  "scenario_result =
     PDict [(''summary'', PStr ''s''), (''category'', PStr ''AI Market''),
            (''sentiment'', PStr ''Bullish''), (''sentiment_score'', PFloat (Finite 0.5)),
            (''bubble_indicators'', PList [PStr ''x''])]"

text \<open>
  The effect of \<^verbatim>\<open>update_article\<close> on the row it addresses, for keys that name columns
  which accept NULL and for values that can be bound: \<open>to_sql\<close> is the value SQLite is
  given (\<open>sql_of\<close> where it exists), \<open>put_all\<close> stores the values of a field map into a
  row one after the other.
\<close>

definition to_sql :: "env \<Rightarrow> pyval \<Rightarrow> pyerr + sqlval" where
  "to_sql E v = bind (if is_list v then PStr (json_dumps E v) else v)"

definition sql_of :: "env \<Rightarrow> pyval \<Rightarrow> sqlval" where
  "sql_of E v = (case to_sql E v of Inl e \<Rightarrow> SqlNull | Inr sv \<Rightarrow> sv)"

definition plain_column :: "column \<Rightarrow> bool" where
  "plain_column col \<longleftrightarrow> col \<noteq> Title \<and> col \<noteq> Url \<and> col \<noteq> Source \<and> col \<noteq> Fetched_date"

definition plain_key :: "string \<Rightarrow> bool" where
  "plain_key key \<longleftrightarrow> (case column_of key of None \<Rightarrow> False | Some col \<Rightarrow> plain_column col)"

definition put_column :: "env \<Rightarrow> column \<Rightarrow> pyval \<Rightarrow> row \<Rightarrow> row" where
  "put_column E col v r =
     (case to_sql E v of
        Inl e \<Rightarrow> r
      | Inr sv \<Rightarrow> (case set_column E col sv r of Inl e \<Rightarrow> r | Inr r' \<Rightarrow> r'))"

fun put_all :: "env \<Rightarrow> (string \<times> pyval) list \<Rightarrow> row \<Rightarrow> row" where
  "put_all E [] r = r"
| "put_all E ((key, v) # rest) r =
     put_all E rest (case column_of key of None \<Rightarrow> r | Some col \<Rightarrow> put_column E col v r)"

text \<open>\<^verbatim>\<open>d.get(k, default)\<close> on the items of a dict.\<close>

definition dict_get :: "(string \<times> pyval) list \<Rightarrow> string \<Rightarrow> pyval \<Rightarrow> pyval" where
  "dict_get kvs k d = (case map_of kvs k of None \<Rightarrow> d | Some v \<Rightarrow> v)"

text \<open>
  The value \<^verbatim>\<open>process_unanalyzed\<close> passes for \<^verbatim>\<open>bubble_indicators\<close>: a list is passed
  as its JSON text.
\<close>

definition bubble_value :: "env \<Rightarrow> pyval \<Rightarrow> pyval" where
  "bubble_value E b = (if is_list b then PStr (json_dumps E b) else b)"




text \<open>The labels that the prompt of \<^verbatim>\<open>analyze_article\<close> asks for.\<close>

definition SENTIMENTS :: "string list" where
  "SENTIMENTS = [''Bullish'', ''Neutral'', ''Bearish'']"

definition CATEGORIES :: "string list" where
  "CATEGORIES = [''AI Funding'', ''AI Valuations'', ''AI Layoffs'', ''AI Products'',
                 ''AI Research'', ''AI Regulation'', ''AI Market'']"

text \<open>
  The analysis columns of a row are in range: sentiment and category are NULL or one of
  the labels, and where the sentiment is not NULL the score is NULL or a number from
  -1 to 1.
\<close>

definition score_in_range :: "sqlval \<Rightarrow> bool" where
  "score_in_range v \<longleftrightarrow>
     (case v of SqlNull \<Rightarrow> True | SqlReal (Finite x) \<Rightarrow> - 1 \<le> x \<and> x \<le> 1 | _ \<Rightarrow> False)"

definition valid_analysis :: "row \<Rightarrow> bool" where
  "valid_analysis r \<longleftrightarrow>
     (case sentiment r of None \<Rightarrow> True | Some s \<Rightarrow> s \<in> set SENTIMENTS) \<and>
     (case category r of None \<Rightarrow> True | Some c \<Rightarrow> c \<in> set CATEGORIES) \<and>
     (sentiment r \<noteq> None \<longrightarrow> score_in_range (sentiment_score r))"

text \<open>
  A parsed reply that keeps to the prompt: under \<^verbatim>\<open>sentiment\<close> and \<^verbatim>\<open>category\<close> it
  carries nothing or one of the labels, under \<^verbatim>\<open>sentiment_score\<close> nothing or a number
  from -1 to 1. An environment is conforming when every reply of its service that parses
  to a truthy result does.
\<close>

fun label_of :: "string list \<Rightarrow> pyval \<Rightarrow> bool" where
  "label_of ls PNone = True"
| "label_of ls (PStr s) = (s \<in> set ls)"
| "label_of ls _ = False"

fun score_value :: "pyval \<Rightarrow> bool" where
  "score_value PNone = True"
| "score_value (PInt i) = (- 1 \<le> i \<and> i \<le> 1)"
| "score_value (PFloat (Finite x)) = (- 1 \<le> x \<and> x \<le> 1)"
| "score_value _ = False"

definition conforming_result :: "pyval \<Rightarrow> bool" where
  "conforming_result result \<longleftrightarrow>
     (case py_get result ''sentiment'' PNone of Inl e \<Rightarrow> False | Inr v \<Rightarrow> label_of SENTIMENTS v) \<and>
     (case py_get result ''category'' PNone of Inl e \<Rightarrow> False | Inr v \<Rightarrow> label_of CATEGORIES v) \<and>
     (case py_get result ''sentiment_score'' PNone of Inl e \<Rightarrow> False | Inr v \<Rightarrow> score_value v)"

definition conforming :: "env \<Rightarrow> bool" where
  "conforming E \<longleftrightarrow>
     (\<forall>n t c response. service E n t c = Some response \<and> truthy (parse_reply E response)
        \<longrightarrow> conforming_result (parse_reply E response))"

text \<open>
  White space as \<^verbatim>\<open>str.strip()\<close> sees it (the code points up to 255 for which
  \<^verbatim>\<open>str.isspace\<close> holds), and a text with none at either end.
\<close>

definition is_space :: "char \<Rightarrow> bool" where
  "is_space c \<longleftrightarrow> (of_char c :: nat) \<in> {9, 10, 11, 12, 13, 28, 29, 30, 31, 32, 133, 160}"

definition trimmed :: "string \<Rightarrow> bool" where
  "trimmed s \<longleftrightarrow> s = [] \<or> (\<not> is_space (hd s) \<and> \<not> is_space (last s))"

text \<open>
  Sample feeds. \<open>soup_text\<close> is BeautifulSoup's \<^verbatim>\<open>get_text(separator=' ', strip=True)\<close>
  at two inputs: the markup of the scenario, and \<open>long_html\<close>, 2999 letters followed by
  one letter in bold, whose two text nodes are joined by the separator. (At other inputs
  it is not used.) \<open>feed_env\<close> is an environment in which the first feed that is fetched
  delivers the entry of the scenario and every later fetch delivers no entry.
\<close>

definition scenario_html :: string where
  "scenario_html = ''<p>Hello <b>world</b></p>''"

definition long_html :: string where
  "long_html = replicate 2999 CHR ''a'' @ ''<b>b</b>''"

definition soup_text :: "string \<Rightarrow> string" where
  "soup_text s =
     (if s = long_html then replicate 2999 CHR ''a'' @ '' b''
      else if s = scenario_html then ''Hello world''
      else s)"

definition entry1 :: entry where
  "entry1 =
     \<lparr>e_title = Some ''T1'', e_link = Some ''http://a/1'',
      e_published = Date ''2024-01-01T00:00:00'', e_updated = NoDate,
      e_content = Some scenario_html, e_summary = None\<rparr>"

definition feed_env :: env where
  "feed_env =
     offline_env\<lparr>get_text := soup_text,
                 feedparser_parse := (\<lambda>n u. if n = 0 then Some [entry1] else Some [])\<rparr>"

text \<open>
  \<open>scenario_env\<close>: the service gives the reply of the scenario, and \<^verbatim>\<open>json.loads\<close> is
  given at the text of its object. \<open>partial_env\<close>: the service gives a reply whose object
  has three of the keys, with a sentiment that is not one of the labels and a score that
  is out of range.
\<close>

definition scenario_env :: env where
  "scenario_env =
     feed_env\<lparr>service := (\<lambda>n t c. Some scenario_reply),
              json_loads := (\<lambda>s. if s = scenario_text then Some scenario_result else None)\<rparr>"

definition partial_reply :: string where
  \<open>partial_reply = ''{"summary": "s", "sentiment": "Great", "sentiment_score": 7}''\<close>

definition partial_result :: pyval where
  "partial_result =
     PDict [(''summary'', PStr ''s''), (''sentiment'', PStr ''Great''),
            (''sentiment_score'', PInt 7)]"

definition partial_env :: env where
  "partial_env =
     feed_env\<lparr>service := (\<lambda>n t c. Some partial_reply),
              json_loads := (\<lambda>s. if s = partial_reply then Some partial_result else None)\<rparr>"

text \<open>
  The state after the first \<^verbatim>\<open>refresh_feeds\<close> in \<open>feed_env\<close>, started with the key
  \<open>k\<close>: the article of the scenario is stored, sanitized.
\<close>

definition fetched_world :: "string \<Rightarrow> world" where
  "fetched_world k =
     \<lparr>articles =
        [\<lparr>id_col = 1, title = ''T1'', url = ''http://a/1'', source = ''TechCrunch AI'',
          published_date = Some ''2024-01-01T00:00:00'', fetched_date = ''2024-01-01T00:00:00'',
          content = Some ''Hello world'', summary = None, category = None,
          sentiment = None, sentiment_score = SqlNull,
          bubble_indicators = None, is_read = SqlInteger 0\<rparr>],
       seq = 1, API_KEY = k, calls = 0, ticks = 1, fetches = 6\<rparr>"

text \<open>
  A payload whose content, and a row whose content, has at most 3000 characters.
\<close>

definition sanitized :: "payload \<Rightarrow> bool" where
  "sanitized a \<longleftrightarrow> (case p_content a of None \<Rightarrow> True | Some c \<Rightarrow> length c \<le> 3000)"

definition content_bounded :: "row \<Rightarrow> bool" where
  "content_bounded r \<longleftrightarrow> (case content r of None \<Rightarrow> True | Some c \<Rightarrow> length c \<le> 3000)"


section \<open>Insert: duplicates and refused payloads\<close>

lemma sql_insert_cases:
  "sql_insert w a now = Inl IntegrityError \<or>
   (\<exists>t u s. p_title a = Some t \<and> p_url a = Some u \<and> p_source a = Some s \<and>
      u \<notin> url ` set (articles w) \<and>
      sql_insert w a now = Inr (w\<lparr>articles := articles w @
                 [\<lparr>id_col = seq w + 1, title = t, url = u, source = s,
                   published_date = p_published_date a, fetched_date = now,
                   content = p_content a, summary = None, category = None,
                   sentiment = None, sentiment_score = SqlNull,
                   bubble_indicators = None, is_read = SqlInteger 0\<rparr>],
                 seq := seq w + 1\<rparr>))"
  by (auto simp: sql_insert_def split: option.splits)

lemma add_article_wf: "wf_store w \<Longrightarrow> wf_store (fst (add_article E w a))"
  using sql_insert_cases[of "w\<lparr>ticks := ticks w + 1\<rparr>" a "clock E (ticks w)"]
  by (fastforce simp: add_article_def Let_def wf_store_def split: sum.splits)

lemma add_article_present:
  "p_url a = Some u \<Longrightarrow> u \<in> url ` set (articles w) \<Longrightarrow>
     add_article E w a = (w\<lparr>ticks := ticks w + 1\<rparr>, None)"
  by (auto simp: add_article_def sql_insert_def Let_def split: option.splits)

lemma add_article_url_stored:
  "p_title a \<noteq> None \<Longrightarrow> p_url a = Some u \<Longrightarrow> p_source a \<noteq> None \<Longrightarrow>
     u \<in> url ` set (articles (fst (add_article E w a)))"
  by (auto simp: add_article_def sql_insert_def Let_def split: option.splits)

lemma one_row_per_key:
  "distinct (map f xs) \<Longrightarrow> v \<in> f ` set xs \<Longrightarrow> length (filter (\<lambda>r. f r = v) xs) = 1"
proof (induction xs)
  case Nil
  then show ?case by simp
next
  case (Cons x xs)
  show ?case
  proof (cases "f x = v")
    case True
    with Cons.prems have "\<forall>r \<in> set xs. f r \<noteq> v"
      by (auto simp: image_iff)
    then have "filter (\<lambda>r. f r = v) xs = []"
      by (simp add: filter_empty_conv)
    with True show ?thesis by simp
  next
    case False
    with Cons show ?thesis by auto
  qed
qed

lemma wf_world1: "wf_store world1"
  by (simp add: world1_def add_article_def sql_insert_def init_db_def article1_def
      wf_store_def Let_def)

lemma articles_world1:
  "articles world1 =
     [\<lparr>id_col = 1, title = ''T1'', url = ''http://a/1'', source = ''S'',
       published_date = Some ''2024-01-01T00:00:00'', fetched_date = ''2024-01-01T00:00:00'',
       content = Some ''Hello world'', summary = None, category = None,
       sentiment = None, sentiment_score = SqlNull,
       bubble_indicators = None, is_read = SqlInteger 0\<rparr>]"
  by (simp add: world1_def add_article_def sql_insert_def init_db_def article1_def
      offline_env_def Let_def)

text \<open>
  C3. In a store that satisfies the table's constraints, inserting a payload whose url is
  already stored returns \<^verbatim>\<open>None\<close> (it does not raise), leaves the table and its id
  counter as they were, and exactly one row has that url. Inserting a payload with a
  title, a url and a source twice in succession: the second insert returns \<^verbatim>\<open>None\<close>,
  changes nothing, and exactly one row has the url.
\<close>

theorem add_article_duplicate_noop:
  "wf_store w \<Longrightarrow>
     (p_url a = Some u \<and> u \<in> url ` set (articles w) \<longrightarrow>
        snd (add_article E w a) = None \<and>
        articles (fst (add_article E w a)) = articles w \<and>
        seq (fst (add_article E w a)) = seq w \<and>
        length (filter (\<lambda>r. url r = u) (articles (fst (add_article E w a)))) = 1) \<and>
     (p_title a \<noteq> None \<and> p_url a = Some u \<and> p_source a \<noteq> None \<longrightarrow>
        snd (add_article E (fst (add_article E w a)) a) = None \<and>
        articles (fst (add_article E (fst (add_article E w a)) a)) =
          articles (fst (add_article E w a)) \<and>
        length (filter (\<lambda>r. url r = u)
          (articles (fst (add_article E (fst (add_article E w a)) a)))) = 1)"
proof (intro conjI impI)
  assume wf: "wf_store w"
  {
    fix w' :: world
    assume wf': "wf_store w'" and u: "p_url a = Some u" and "u \<in> url ` set (articles w')"
    then have eq: "add_article E w' a = (w'\<lparr>ticks := ticks w' + 1\<rparr>, None)"
      by (simp add: add_article_present)
    from wf' \<open>u \<in> url ` set (articles w')\<close>
    have "length (filter (\<lambda>r. url r = u) (articles w')) = 1"
      by (simp add: wf_store_def one_row_per_key)
    with eq have "snd (add_article E w' a) = None \<and>
        articles (fst (add_article E w' a)) = articles w' \<and>
        seq (fst (add_article E w' a)) = seq w' \<and>
        length (filter (\<lambda>r. url r = u) (articles (fst (add_article E w' a)))) = 1"
      by simp
  } note dup = this
  {
    assume "p_url a = Some u \<and> u \<in> url ` set (articles w)"
    with wf dup[of w] show "snd (add_article E w a) = None"
      and "articles (fst (add_article E w a)) = articles w"
      and "seq (fst (add_article E w a)) = seq w"
      and "length (filter (\<lambda>r. url r = u) (articles (fst (add_article E w a)))) = 1"
      by blast+
  }
  {
    assume a: "p_title a \<noteq> None \<and> p_url a = Some u \<and> p_source a \<noteq> None"
    then have "u \<in> url ` set (articles (fst (add_article E w a)))"
      by (simp add: add_article_url_stored)
    with a wf dup[of "fst (add_article E w a)"] add_article_wf[of w E a]
    show "snd (add_article E (fst (add_article E w a)) a) = None"
      and "articles (fst (add_article E (fst (add_article E w a)) a)) =
             articles (fst (add_article E w a))"
      and "length (filter (\<lambda>r. url r = u)
             (articles (fst (add_article E (fst (add_article E w a)) a)))) = 1"
      by blast+
  }
qed

theorem add_article_duplicate_noop_witness:
  "wf_store world1 \<and>
   (p_url article1 = Some ''http://a/1'' \<and> ''http://a/1'' \<in> url ` set (articles world1)) \<and>
   (p_title article1 \<noteq> None \<and> p_source article1 \<noteq> None) \<and>
   snd (add_article offline_env world1 article1) = None \<and>
   articles (fst (add_article offline_env world1 article1)) = articles world1 \<and>
   length (filter (\<lambda>r. url r = ''http://a/1'')
     (articles (fst (add_article offline_env world1 article1)))) = 1 \<and>
   length (filter (\<lambda>r. url r = ''http://a/1'')
     (articles (fst (add_article offline_env
        (fst (add_article offline_env world1 article1)) article1)))) = 1"
proof -
  have h: "p_url article1 = Some ''http://a/1''" "p_title article1 \<noteq> None"
    "p_source article1 \<noteq> None"
    by (simp_all add: article1_def)
  have m: "''http://a/1'' \<in> url ` set (articles world1)"
    by (simp add: articles_world1)
  show ?thesis
    using add_article_duplicate_noop[OF wf_world1, of article1 "''http://a/1''" offline_env]
      h m wf_world1
    by blast
qed


lemma add_article_refused:
  "violates_constraint w a \<Longrightarrow> add_article E w a = (w\<lparr>ticks := ticks w + 1\<rparr>, None)"
  by (auto simp: violates_constraint_def add_article_def sql_insert_def Let_def
      split: option.splits)

lemma add_article_urls:
  "url ` set (articles w) = url ` set (articles w') \<Longrightarrow>
     snd (add_article E w a) = None \<longleftrightarrow> snd (add_article E w' a) = None"
  by (auto simp: add_article_def sql_insert_def Let_def split: option.splits)

lemma add_article_urls_after:
  "url ` set (articles w) = url ` set (articles w') \<Longrightarrow>
     url ` set (articles (fst (add_article E w a))) =
     url ` set (articles (fst (add_article E w' a)))"
  by (auto simp: add_article_def sql_insert_def Let_def split: option.splits)

lemma add_article_nonzero: "0 \<le> seq w \<Longrightarrow> snd (add_article E w a) \<noteq> Some 0"
  by (auto simp: add_article_def sql_insert_def Let_def split: option.splits)

lemma add_article_seq_nonneg: "0 \<le> seq w \<Longrightarrow> 0 \<le> seq (fst (add_article E w a))"
  by (auto simp: add_article_def sql_insert_def Let_def split: option.splits)

text \<open>The count of \<^verbatim>\<open>refresh_feeds\<close> depends on the store only through the stored urls.\<close>

lemma refresh_loop_count:
  "url ` set (articles w) = url ` set (articles w') \<Longrightarrow> 0 \<le> seq w \<Longrightarrow> 0 \<le> seq w' \<Longrightarrow>
     snd (refresh_loop E w as n) = snd (refresh_loop E w' as n)"
proof (induction as arbitrary: w w' n)
  case Nil
  then show ?case by simp
next
  case (Cons a as)
  show ?case
  proof (cases "p_url a \<noteq> None \<and> p_url a \<noteq> Some []")
    case False
    then show ?thesis using Cons.IH[OF Cons.prems] by auto
  next
    case True
    obtain w1 r1 where 1: "add_article E w a = (w1, r1)" by (cases "add_article E w a")
    obtain w2 r2 where 2: "add_article E w' a = (w2, r2)" by (cases "add_article E w' a")
    have u: "url ` set (articles w1) = url ` set (articles w2)"
      using add_article_urls_after[OF Cons.prems(1), of E a] 1 2 by simp
    have s: "0 \<le> seq w1" "0 \<le> seq w2"
      using add_article_seq_nonneg[OF Cons.prems(2), of E a]
        add_article_seq_nonneg[OF Cons.prems(3), of E a] 1 2
      by simp_all
    have n: "r1 = None \<longleftrightarrow> r2 = None"
      using add_article_urls[OF Cons.prems(1), of E a] 1 2 by simp
    have z: "r1 \<noteq> Some 0" "r2 \<noteq> Some 0"
      using add_article_nonzero[OF Cons.prems(2), of E a]
        add_article_nonzero[OF Cons.prems(3), of E a] 1 2
      by simp_all
    show ?thesis
      using True 1 2 n z Cons.IH[OF u s] by auto
  qed
qed

text \<open>
  C10. A payload that violates a constraint of the table, whichever it is (no title, no
  url, no source, or a url that is already stored), makes \<^verbatim>\<open>add_article\<close> return the
  one value \<^verbatim>\<open>None\<close> and leave the table as it was; the count of \<^verbatim>\<open>refresh_feeds\<close> is the
  same as if the payload had not been in the list.
\<close>

theorem refused_payload_same_sentinel:
  "wf_store w \<Longrightarrow> violates_constraint w a \<Longrightarrow>
     add_article E w a = (w\<lparr>ticks := ticks w + 1\<rparr>, None) \<and>
     snd (refresh_loop E w (a # as) n) = snd (refresh_loop E w as n)"
proof -
  assume wf: "wf_store w" and v: "violates_constraint w a"
  have eq: "add_article E w a = (w\<lparr>ticks := ticks w + 1\<rparr>, None)"
    using v by (rule add_article_refused)
  have s: "0 \<le> seq w" using wf by (simp add: wf_store_def)
  have "snd (refresh_loop E (w\<lparr>ticks := ticks w + 1\<rparr>) as n) = snd (refresh_loop E w as n)"
    by (rule refresh_loop_count) (use s in simp_all)
  with eq show ?thesis by simp
qed

theorem refused_payload_same_sentinel_witness:
  "wf_store world1 \<and> violates_constraint world1 article1 \<and>
   violates_constraint world1 (article1\<lparr>p_title := None, p_url := Some ''http://a/2''\<rparr>) \<and>
   snd (add_article offline_env world1 article1) = None \<and>
   snd (add_article offline_env world1 (article1\<lparr>p_title := None, p_url := Some ''http://a/2''\<rparr>)) = None \<and>
   snd (refresh_loop offline_env world1 [article1\<lparr>p_title := None, p_url := Some ''http://a/2''\<rparr>] 0) = 0"
proof -
  have v1: "violates_constraint world1 article1"
    by (simp add: violates_constraint_def articles_world1 article1_def)
  have v2: "violates_constraint world1 (article1\<lparr>p_title := None, p_url := Some ''http://a/2''\<rparr>)"
    by (simp add: violates_constraint_def)
  show ?thesis
    using refused_payload_same_sentinel[OF wf_world1 v1, of offline_env "[]" 0]
      refused_payload_same_sentinel[OF wf_world1 v2, of offline_env "[]" 0] v1 v2 wf_world1
    by simp
qed


section \<open>No credential\<close>

lemma process_loop_no_key:
  "API_KEY w = [] \<Longrightarrow> process_loop E w xs n = (w, Inr n)"
  by (induction xs) (simp_all add: analyze_article_def)

text \<open>
  C7. With an empty \<^verbatim>\<open>API_KEY\<close> the client returns \<^verbatim>\<open>None\<close> without calling the
  service (the state, which counts the calls, is unchanged), and the pipeline returns 0
  and leaves the whole state, every article included, as it was.
\<close>

theorem no_credential_no_call:
  "API_KEY w = [] \<Longrightarrow>
     analyze_article E w article = (w, Inr PNone) \<and>
     process_unanalyzed E w = (w, Inr 0) \<and>
     calls (fst (process_unanalyzed E w)) = calls w \<and>
     articles (fst (process_unanalyzed E w)) = articles w"
  by (simp add: process_unanalyzed_def process_loop_no_key analyze_article_def)

lemma API_KEY_world1: "API_KEY world1 = []"
  by (simp add: world1_def add_article_def sql_insert_def init_db_def article1_def Let_def)

theorem no_credential_no_call_witness:
  "API_KEY world1 = [] \<and>
   analyze_article offline_env world1 (hd (articles world1)) = (world1, Inr PNone) \<and>
   process_unanalyzed offline_env world1 = (world1, Inr 0) \<and>
   calls (fst (process_unanalyzed offline_env world1)) = calls world1"
  using no_credential_no_call[of world1 offline_env "hd (articles world1)"] API_KEY_world1
  by simp


section \<open>The unprocessed articles\<close>

lemma set_insert_desc: "set (insert_desc k x xs) = insert x (set xs)"
  by (induction xs) auto

lemma set_order_by_desc: "set (order_by_desc k xs) = set xs"
  unfolding order_by_desc_def by (induction xs) (simp_all add: set_insert_desc)

lemma length_insert_desc: "length (insert_desc k x xs) = Suc (length xs)"
  by (induction xs) auto

lemma length_order_by_desc: "length (order_by_desc k xs) = length xs"
  unfolding order_by_desc_def by (induction xs) (simp_all add: length_insert_desc)




lemma set_sql_limit: "set (sql_limit n xs) \<subseteq> set xs"
  by (auto simp: sql_limit_def dest: in_set_takeD)







section \<open>Parsing the reply\<close>

lemma find_char_absent: "c \<notin> set s \<Longrightarrow> find_char c s = - 1"
  by (induction s) (auto simp: Let_def)

lemma find_char_nonneg: "c \<in> set s \<Longrightarrow> 0 \<le> find_char c s"
  by (induction s) (auto simp: Let_def)

lemma find_char_first: "c \<notin> set pre \<Longrightarrow> find_char c (pre @ c # rest) = int (length pre)"
  by (induction pre) (auto simp: Let_def)

lemma rfind_char_absent: "c \<notin> set s \<Longrightarrow> rfind_char c s = - 1"
  by (induction s) (auto simp: Let_def)

lemma rfind_char_last: "c \<notin> set post \<Longrightarrow> rfind_char c (pre @ c # post) = int (length pre)"
  by (induction pre) (auto simp: Let_def rfind_char_absent)

lemma slice_span:
  "slice (pre @ x # mid @ y # post) (int (length pre)) (int (length pre + length mid + 1) + 1) = x # mid @ [y]"
  by (simp add: slice_def nat_add_distrib)

lemma parse_reply_span:
  assumes "CHR ''{'' \<notin> set pre" "CHR ''}'' \<notin> set post"
  shows "parse_reply E (pre @ CHR ''{'' # mid @ CHR ''}'' # post) =
           (case json_loads E (CHR ''{'' # mid @ ''}'') of None \<Rightarrow> PNone | Some v \<Rightarrow> v)"
proof -
  let ?r = "pre @ CHR ''{'' # mid @ CHR ''}'' # post"
  have s: "find_char CHR ''{'' ?r = int (length pre)"
    using assms(1) by (rule find_char_first)
  have "rfind_char CHR ''}'' ((pre @ CHR ''{'' # mid) @ CHR ''}'' # post) = int (length (pre @ CHR ''{'' # mid))"
    using assms(2) by (rule rfind_char_last)
  then have e: "rfind_char CHR ''}'' ?r = int (length pre + length mid + 1)"
    by simp
  show ?thesis
    unfolding parse_reply_def s e Let_def slice_span by simp
qed

lemma parse_reply_no_span:
  assumes "\<not> (\<exists>pre mid post. response = pre @ CHR ''{'' # mid @ CHR ''}'' # post)"
  shows "parse_reply E response = PNone"
proof (rule ccontr)
  assume n: "parse_reply E response \<noteq> PNone"
  let ?s = "find_char CHR ''{'' response" and ?e = "rfind_char CHR ''}'' response"
  from n have se: "0 \<le> ?s" "?s < ?e + 1"
    by (auto simp: parse_reply_def Let_def split: if_splits)
  then have "CHR ''{'' \<in> set response" 
    using find_char_absent[of "CHR ''{''" response] by auto
  then obtain pre rest where 1: "response = pre @ CHR ''{'' # rest" "CHR ''{'' \<notin> set pre"
    by (auto dest: split_list_first)
  have "CHR ''}'' \<in> set response"
    using se rfind_char_absent[of "CHR ''}''" response] by auto
  then obtain pre2 post where 2: "response = pre2 @ CHR ''}'' # post" "CHR ''}'' \<notin> set post"
    by (auto dest: split_list_last)
  have s: "?s = int (length pre)" using 1 by (simp add: find_char_first)
  have e: "?e = int (length pre2)" using 2 by (simp add: rfind_char_last)
  from se s e have le: "length pre \<le> length pre2" by simp
  have "response ! length pre = CHR ''{''" using 1 by simp
  moreover have "response ! length pre2 = CHR ''}''" using 2 by simp
  ultimately have "length pre \<noteq> length pre2" by auto
  with le have lt: "length pre < length pre2" by simp
  from 1 2 have "pre @ CHR ''{'' # rest = pre2 @ CHR ''}'' # post" by simp
  with lt obtain mid where "pre2 = pre @ CHR ''{'' # mid"
    by (auto simp: append_eq_append_conv2 Cons_eq_append_conv)
  with 2 have "response = pre @ CHR ''{'' # mid @ CHR ''}'' # post" by simp
  with assms show False by blast
qed

text \<open>
  C6. The client parses the span of the reply from its first \<^verbatim>\<open>{\<close> to its last
  \<^verbatim>\<open>}\<close> and nothing else: prose before the first brace and after the last one is
  ignored, and the result is what \<^verbatim>\<open>json.loads\<close> returns for the span. When
  \<^verbatim>\<open>json.loads\<close> raises, or when the reply has no opening brace followed by a closing
  one, the result is \<^verbatim>\<open>None\<close>. In each case \<^verbatim>\<open>analyze_article\<close> returns a value: the
  exception does not leave it.
\<close>

theorem parse_reply_first_to_last_brace:
  "(CHR ''{'' \<notin> set pre \<and> CHR ''}'' \<notin> set post \<longrightarrow>
      parse_reply E (pre @ CHR ''{'' # mid @ CHR ''}'' # post) =
        (case json_loads E (CHR ''{'' # mid @ ''}'') of None \<Rightarrow> PNone | Some v \<Rightarrow> v)) \<and>
   ((\<nexists>p m q. response = p @ CHR ''{'' # m @ CHR ''}'' # q) \<longrightarrow> parse_reply E response = PNone) \<and>
   (API_KEY w \<noteq> [] \<and> HAS_ANTHROPIC E \<and> content article = Some c \<and>
    service E (calls w) (title article) (take 2500 c) = Some response \<longrightarrow>
      snd (analyze_article E w article) = Inr (parse_reply E response))"
  by (auto simp: parse_reply_span parse_reply_no_span analyze_article_def)

theorem parse_reply_first_to_last_brace_witness:
  "CHR ''{'' \<notin> set ''Here you go: '' \<and> CHR ''}'' \<notin> set '' thanks'' \<and>
   parse_reply scenario_env scenario_reply = scenario_result \<and>
   (\<nexists>p m q. ''no object here'' = p @ CHR ''{'' # m @ CHR ''}'' # q) \<and>
   parse_reply scenario_env ''no object here'' = PNone"
proof -
  have n: "\<nexists>p m q. ''no object here'' = p @ CHR ''{'' # m @ CHR ''}'' # q"
  proof
    assume "\<exists>p m q. ''no object here'' = p @ CHR ''{'' # m @ CHR ''}'' # q"
    then obtain p m q where "''no object here'' = p @ CHR ''{'' # m @ CHR ''}'' # q" by blast
    then have "CHR ''{'' \<in> set ''no object here''" by (metis in_set_conv_decomp)
    then show False by simp
  qed
  have r: "scenario_reply = ''Here you go: '' @ CHR ''{'' # scenario_body @ CHR ''}'' # '' thanks''"
    by (simp add: scenario_reply_def scenario_text_def)
  have l: "json_loads scenario_env (CHR ''{'' # scenario_body @ ''}'') = Some scenario_result"
    by (simp add: scenario_env_def scenario_text_def)
  show ?thesis
    using parse_reply_first_to_last_brace[of "''Here you go: ''" "'' thanks''" scenario_env
        scenario_body "''no object here''"] n
    unfolding r[symmetric] l by simp
qed


section \<open>Update of the columns that accept NULL\<close>

lemma bindable_to_sql: "bindable v \<longleftrightarrow> (\<exists>sv. to_sql E v = Inr sv)"
  by (cases v) (auto simp: bindable_def to_sql_def)

lemma set_column_plain:
  "plain_column col \<Longrightarrow> \<exists>r'. set_column E col sv r = Inr r' \<and> id_col r' = id_col r \<and> url r' = url r"
  by (cases col) (simp_all add: plain_column_def)

lemma put_column_id: "plain_column col \<Longrightarrow> id_col (put_column E col v r) = id_col r"
  by (cases col) (auto simp: put_column_def plain_column_def split: sum.splits)

lemma put_column_url: "plain_column col \<Longrightarrow> url (put_column E col v r) = url r"
  by (cases col) (auto simp: put_column_def plain_column_def split: sum.splits)

lemma plain_keyD: "plain_key key \<Longrightarrow> \<exists>col. column_of key = Some col \<and> plain_column col"
  by (auto simp: plain_key_def split: option.splits)

lemma map_id_col_put:
  "plain_column col \<Longrightarrow>
     map id_col (map (\<lambda>x. if id_col x = i then put_column E col v x else x) rows) = map id_col rows"
  by (induction rows) (auto simp: put_column_id)

lemma put_all_id: "\<forall>(k, v) \<in> set ups. plain_key k \<Longrightarrow> id_col (put_all E ups r) = id_col r"
proof (induction ups arbitrary: r)
  case Nil
  then show ?case by simp
next
  case (Cons kv ups)
  obtain k v where kv: "kv = (k, v)" by (cases kv)
  with Cons.prems obtain col where c: "column_of k = Some col" "plain_column col"
    using plain_keyD[of k] by auto
  from Cons.prems have "\<forall>(k, v) \<in> set ups. plain_key k" by simp
  from Cons.IH[OF this] kv c show ?case by (simp add: put_column_id)
qed

lemma put_all_url: "\<forall>(k, v) \<in> set ups. plain_key k \<Longrightarrow> url (put_all E ups r) = url r"
proof (induction ups arbitrary: r)
  case Nil
  then show ?case by simp
next
  case (Cons kv ups)
  obtain k v where kv: "kv = (k, v)" by (cases kv)
  with Cons.prems obtain col where c: "column_of k = Some col" "plain_column col"
    using plain_keyD[of k] by auto
  from Cons.prems have "\<forall>(k, v) \<in> set ups. plain_key k" by simp
  from Cons.IH[OF this] kv c show ?case by (simp add: put_column_url)
qed

lemma find_id_row:
  "find (\<lambda>r. id_col r = i) rows = Some r \<Longrightarrow> r \<in> set rows \<and> id_col r = i"
  by (auto simp: find_Some_iff)

lemma update_column_plain:
  assumes d: "distinct (map id_col rows)" and p: "plain_column col" and b: "to_sql E v = Inr sv"
  shows "update_column E rows col sv i =
           Inr (map (\<lambda>x. if id_col x = i then put_column E col v x else x) rows)"
proof (cases "find (\<lambda>r. id_col r = i) rows")
  case None
  then have "\<forall>x \<in> set rows. id_col x \<noteq> i" by (auto simp: find_None_iff)
  then have "map (\<lambda>x. if id_col x = i then put_column E col v x else x) rows = rows"
    by (simp add: map_idI)
  with None show ?thesis by (simp add: update_column_def)
next
  case (Some r)
  then have r: "r \<in> set rows" "id_col r = i" using find_id_row by blast+
  obtain r' where r': "set_column E col sv r = Inr r'"
    using set_column_plain[OF p] by blast
  have pr: "put_column E col v r = r'" using b r' by (simp add: put_column_def)
  have u: "\<forall>x \<in> set rows. id_col x = i \<longrightarrow> x = r"
    using d r by (auto simp: distinct_map inj_on_def)
  then have "map (\<lambda>x. if id_col x = i then r' else x) rows =
             map (\<lambda>x. if id_col x = i then put_column E col v x else x) rows"
    using pr by (intro map_cong) auto
  moreover have "col \<noteq> Url" using p by (auto simp: plain_column_def)
  ultimately show ?thesis using Some r' by (simp add: update_column_def)
qed

lemma bind_id: "bindable_id i \<longleftrightarrow> (\<exists>sv. bind (PInt i) = Inr sv)"
  by (auto simp: bindable_id_def)

lemma sql_update_plain:
  assumes d: "distinct (map id_col rows)" and c: "column_of key = Some col" and p: "plain_column col"
    and b: "bindable v" and i: "bindable_id i"
  shows "sql_update E rows key (if is_list v then PStr (json_dumps E v) else v) i =
           Inr (map (\<lambda>x. if id_col x = i then put_column E col v x else x) rows)"
proof -
  from b obtain sv where sv: "to_sql E v = Inr sv" using bindable_to_sql by blast
  from i obtain si where si: "bind (PInt i) = Inr si" using bind_id by blast
  have "sql_update E rows key (if is_list v then PStr (json_dumps E v) else v) i =
          update_column E rows col sv i"
    using c sv si unfolding sql_update_def to_sql_def by simp
  with update_column_plain[OF d p sv] show ?thesis by simp
qed

lemma sql_update_unbound:
  assumes c: "column_of key = Some col" and n: "\<not> bindable v \<or> \<not> bindable_id i"
  shows "\<exists>e. sql_update E rows key (if is_list v then PStr (json_dumps E v) else v) i = Inl e"
proof (cases "to_sql E v")
  case (Inl e)
  with c show ?thesis unfolding sql_update_def to_sql_def by simp
next
  case (Inr sv)
  then have "bindable v" using bindable_to_sql by blast
  with n have "\<not> bindable_id i" by simp
  then obtain e where "bind (PInt i) = Inl e" using bind_id[of i] by (cases "bind (PInt i)") auto
  with c Inr show ?thesis unfolding sql_update_def to_sql_def by simp
qed

lemma run_updates_plain:
  "distinct (map id_col rows) \<Longrightarrow> \<forall>(k, v) \<in> set ups. plain_key k \<and> bindable v \<Longrightarrow>
     ups = [] \<or> bindable_id i \<Longrightarrow>
     run_updates E rows i ups = Inr (map (\<lambda>x. if id_col x = i then put_all E ups x else x) rows)"
proof (induction ups arbitrary: rows)
  case Nil
  then show ?case by (simp add: map_idI)
next
  case (Cons kv ups)
  obtain k v where kv: "kv = (k, v)" by (cases kv)
  from Cons.prems kv have bv: "bindable v" and "plain_key k" by auto
  then obtain col where c: "column_of k = Some col" and p: "plain_column col"
    using plain_keyD by blast
  from Cons.prems(3) have i: "bindable_id i" by simp
  let ?rows = "map (\<lambda>x. if id_col x = i then put_column E col v x else x) rows"
  have 1: "sql_update E rows k (if is_list v then PStr (json_dumps E v) else v) i = Inr ?rows"
    using Cons.prems(1) c p bv i by (rule sql_update_plain)
  have "map id_col ?rows = map id_col rows"
    using p by (rule map_id_col_put)
  with Cons.prems(1) have 2: "distinct (map id_col ?rows)" by (simp only:)
  have 3: "run_updates E ?rows i ups =
             Inr (map (\<lambda>x. if id_col x = i then put_all E ups x else x) ?rows)"
    using Cons.IH[OF 2] Cons.prems(2) i by simp
  have 4: "map (\<lambda>x. if id_col x = i then put_all E ups x else x) ?rows =
           map (\<lambda>x. if id_col x = i then put_all E (kv # ups) x else x) rows"
    using p kv c by (simp add: put_column_id)
  show ?case
    using 1 3 4 kv by simp
qed

lemma run_updates_raises:
  "(\<exists>(k, v) \<in> set ups. \<not> bindable v) \<or> (ups \<noteq> [] \<and> \<not> bindable_id i) \<Longrightarrow>
     \<forall>(k, v) \<in> set ups. plain_key k \<Longrightarrow> distinct (map id_col rows) \<Longrightarrow>
     \<exists>e. run_updates E rows i ups = Inl e"
proof (induction ups arbitrary: rows)
  case Nil
  then show ?case by simp
next
  case (Cons kv ups)
  obtain k v where kv: "kv = (k, v)" by (cases kv)
  from Cons.prems kv obtain col where c: "column_of k = Some col" and p: "plain_column col"
    using plain_keyD[of k] by auto
  show ?case
  proof (cases "bindable v \<and> bindable_id i")
    case False
    then obtain e where
      "sql_update E rows k (if is_list v then PStr (json_dumps E v) else v) i = Inl e"
      using sql_update_unbound[OF c, where v=v and i=i and E=E and rows=rows] by blast
    with kv show ?thesis by simp
  next
    case True
    let ?rows = "map (\<lambda>x. if id_col x = i then put_column E col v x else x) rows"
    have 1: "sql_update E rows k (if is_list v then PStr (json_dumps E v) else v) i = Inr ?rows"
      using Cons.prems(3) c p True by (intro sql_update_plain) simp_all
    have "map id_col ?rows = map id_col rows"
      using p by (rule map_id_col_put)
    with Cons.prems(3) have 2: "distinct (map id_col ?rows)" by (simp only:)
    from Cons.prems(1) kv True have "(\<exists>(k, v) \<in> set ups. \<not> bindable v) \<or> (ups \<noteq> [] \<and> \<not> bindable_id i)"
      by auto
    then have "\<exists>e. run_updates E ?rows i ups = Inl e"
      using Cons.IH[OF _ _ 2] Cons.prems(2) by simp
    with 1 kv show ?thesis by auto
  qed
qed

lemma update_article_plain:
  assumes "wf_store w" "\<forall>(k, v) \<in> set ups. plain_key k"
  shows "(if (\<forall>(k, v) \<in> set ups. bindable v) \<and> (ups = [] \<or> bindable_id i)
          then update_article E w i ups =
                 (w\<lparr>articles := map (\<lambda>x. if id_col x = i then put_all E ups x else x) (articles w)\<rparr>, Inr ())
          else \<exists>e. update_article E w i ups = (w, Inl e))"
proof (cases "(\<forall>(k, v) \<in> set ups. bindable v) \<and> (ups = [] \<or> bindable_id i)")
  case True
  with assms have "\<forall>(k, v) \<in> set ups. plain_key k \<and> bindable v" by auto
  moreover have "distinct (map id_col (articles w))" using assms(1) by (simp add: wf_store_def)
  ultimately show ?thesis using True by (simp add: update_article_def run_updates_plain)
next
  case False
  then have "(\<exists>(k, v) \<in> set ups. \<not> bindable v) \<or> (ups \<noteq> [] \<and> \<not> bindable_id i)" by auto
  moreover have "distinct (map id_col (articles w))" using assms(1) by (simp add: wf_store_def)
  ultimately obtain e where "run_updates E (articles w) i ups = Inl e"
    using run_updates_raises[where ups=ups and i=i and rows="articles w" and E=E] assms(2) by blast
  with False show ?thesis by (simp add: update_article_def)
qed

lemma wf_store_map:
  assumes "wf_store w" "\<forall>x. id_col (f x) = id_col x \<and> url (f x) = url x"
  shows "wf_store (w\<lparr>articles := map f (articles w)\<rparr>)"
proof -
  have "map id_col (map f (articles w)) = map id_col (articles w)"
       "map url (map f (articles w)) = map url (articles w)"
    using assms(2) by simp_all
  with assms show ?thesis by (auto simp: wf_store_def simp del: map_map)
qed

lemma update_article_wf:
  assumes "wf_store w" "\<forall>(k, v) \<in> set ups. plain_key k"
  shows "wf_store (fst (update_article E w i ups))"
proof (cases "(\<forall>(k, v) \<in> set ups. bindable v) \<and> (ups = [] \<or> bindable_id i)")
  case True
  have "wf_store (w\<lparr>articles := map (\<lambda>x. if id_col x = i then put_all E ups x else x) (articles w)\<rparr>)"
    using assms by (intro wf_store_map) (auto simp: put_all_id put_all_url)
  with True update_article_plain[OF assms, where E=E and i=i] show ?thesis by simp
next
  case False
  with update_article_plain[OF assms, where E=E and i=i] assms(1) show ?thesis by auto
qed


section \<open>Update of an id that is not stored\<close>








section \<open>Reading back what an update stored\<close>

lemma find_map_update:
  "\<exists>x \<in> set rows. id_col x = i \<Longrightarrow> \<forall>x. id_col (f x) = id_col x \<Longrightarrow>
     \<exists>r \<in> set rows. id_col r = i \<and>
       find (\<lambda>r. id_col r = i) (map (\<lambda>x. if id_col x = i then f x else x) rows) = Some (f r)"
  by (induction rows) auto

lemma set_get_articles: "set (get_articles w limit s c) \<subseteq> set (articles w)"
  using set_sql_limit by (fastforce simp: get_articles_def set_order_by_desc)

lemma set_get_unprocessed: "set (get_unprocessed_articles w limit) \<subseteq> set (articles w)"
  using set_sql_limit by (fastforce simp: get_unprocessed_articles_def set_order_by_desc)

lemma put_bubble_list:
  "bubble_indicators (put_all E [(''bubble_indicators'', PList l)] r) =
     Some (json_dumps E (PList l))"
  by (simp add: put_column_def to_sql_def column_of_def)

text \<open>
  C2 (as amended). After \<^verbatim>\<open>update_article\<close> has stored a sequence of strings as
  \<^verbatim>\<open>bubble_indicators\<close> of an article that exists (under an id within 64 bits, as
  every rowid of SQLite is), every read of the article
  (\<^verbatim>\<open>get_article\<close>, \<^verbatim>\<open>get_articles\<close>, \<^verbatim>\<open>get_unprocessed_articles\<close>) returns as its
  \<^verbatim>\<open>bubble_indicators\<close> the JSON text of the sequence, a \<^verbatim>\<open>str\<close>: the text that
  \<^verbatim>\<open>json.dumps\<close> gave when the value was stored. No read turns it back into a list.
\<close>

theorem bubble_indicators_read_back_as_text:
  assumes "wf_store w" and "article_id \<in> id_col ` set (articles w)"
    and "article_id < 2 ^ 63"
    and "w' = fst (update_article E w article_id [(''bubble_indicators'', PList (map PStr xs))])"
  shows "snd (update_article E w article_id [(''bubble_indicators'', PList (map PStr xs))]) = Inr () \<and>
         (\<exists>r. get_article w' article_id = Some r \<and>
              text_value (bubble_indicators r) = PStr (json_dumps E (PList (map PStr xs)))) \<and>
         (\<forall>r \<in> set (get_articles w' limit s c) \<union> set (get_unprocessed_articles w' limit).
            id_col r = article_id \<longrightarrow>
              text_value (bubble_indicators r) = PStr (json_dumps E (PList (map PStr xs))))"
proof -
  let ?ups = "[(''bubble_indicators'', PList (map PStr xs))]"
  let ?f = "put_all E ?ups"
  have p: "\<forall>(k, v) \<in> set ?ups. plain_key k"
    by (simp add: plain_key_def column_of_def plain_column_def)
  have "0 < article_id" using assms(1,2) by (auto simp: wf_store_def)
  with assms(3) have i: "bindable_id article_id" by (simp add: bindable_id_def)
  have b: "\<forall>(k, v) \<in> set ?ups. bindable v" by (simp add: bindable_def)
  have u: "update_article E w article_id ?ups =
        (w\<lparr>articles := map (\<lambda>x. if id_col x = article_id then ?f x else x) (articles w)\<rparr>, Inr ())"
    using update_article_plain[OF assms(1) p, where E=E and i=article_id] b i by simp
  then have a': "articles w' = map (\<lambda>x. if id_col x = article_id then ?f x else x) (articles w)"
    using assms(4) by simp
  have idf: "\<forall>x. id_col (?f x) = id_col x"
    using put_all_id[OF p] by blast
  obtain r where "get_article w' article_id = Some (?f r)"
    using find_map_update[of "articles w" article_id ?f] assms(2) idf
    unfolding get_article_def a' by auto
  moreover have "text_value (bubble_indicators (?f r)) = PStr (json_dumps E (PList (map PStr xs)))" for r
    using put_bubble_list[of E "map PStr xs" r] by simp
  moreover have "text_value (bubble_indicators r) = PStr (json_dumps E (PList (map PStr xs)))"
    if "r \<in> set (articles w')" "id_col r = article_id" for r
  proof -
    from that obtain x where "r = ?f x" unfolding a' using idf by (auto split: if_splits)
    then show ?thesis using put_bubble_list[of E "map PStr xs" x] by simp
  qed
  ultimately show ?thesis
    using u set_get_articles[of w' limit s c] set_get_unprocessed[of w' limit] by auto
qed

lemma dumps_xy: \<open>json_dumps E (PList [PStr ''x'', PStr ''y'']) = ''["x", "y"]''\<close>
  by (simp add: encode_str_def escape_char_def)

lemma update_bubble_world1:
  \<open>update_article offline_env world1 1 [(''bubble_indicators'', PList [PStr ''x'', PStr ''y''])] =
     (world1\<lparr>articles := [(hd (articles world1))\<lparr>bubble_indicators := Some ''["x", "y"]''\<rparr>]\<rparr>, Inr ())\<close>
  by (simp add: update_article_def articles_world1 sql_update_def update_column_def column_of_def
      encode_str_def escape_char_def)

text \<open>
  C2 as stated fails: after storing \<^verbatim>\<open>["x", "y"]\<close>, \<^verbatim>\<open>get_article\<close> returns the
  ten-character string, not the list of two strings.
\<close>

theorem bubble_indicators_not_deserialized:
  \<open>map_option (\<lambda>r. text_value (bubble_indicators r))
     (get_article (fst (update_article offline_env world1 1
        [(''bubble_indicators'', PList [PStr ''x'', PStr ''y''])])) 1) = Some (PStr ''["x", "y"]'') \<and>
   map_option (\<lambda>r. text_value (bubble_indicators r))
     (get_article (fst (update_article offline_env world1 1
        [(''bubble_indicators'', PList [PStr ''x'', PStr ''y''])])) 1) \<noteq> Some (PList [PStr ''x'', PStr ''y''])\<close>
  by (simp add: update_bubble_world1 get_article_def articles_world1)

theorem bubble_indicators_read_back_as_text_witness:
  \<open>wf_store world1 \<and> 1 \<in> id_col ` set (articles world1) \<and> (1::int) < 2 ^ 63 \<and>
   snd (update_article offline_env world1 1 [(''bubble_indicators'', PList (map PStr [''x'', ''y'']))]) = Inr () \<and>
   (\<exists>r. get_article (fst (update_article offline_env world1 1
            [(''bubble_indicators'', PList (map PStr [''x'', ''y'']))])) 1 = Some r \<and>
        text_value (bubble_indicators r) = PStr ''["x", "y"]'')\<close>
proof -
  have i: "1 \<in> id_col ` set (articles world1)" by (simp add: articles_world1)
  show ?thesis
    using bubble_indicators_read_back_as_text[OF wf_world1 i _ refl, of offline_env "[''x'', ''y'']"]
      wf_world1 i
    by (simp add: encode_str_def escape_char_def)
qed


section \<open>The sample runs\<close>

lemma scenario_not_long: "scenario_html \<noteq> long_html"
proof
  assume "scenario_html = long_html"
  then have "length scenario_html = length long_html" by simp
  then show False by (simp add: scenario_html_def long_html_def)
qed

lemma soup_text_scenario: "soup_text scenario_html = ''Hello world''"
  by (simp add: soup_text_def scenario_not_long)

lemma refresh_feed_env:
  assumes g: "get_text E = soup_text"
    and f: "feedparser_parse E = (\<lambda>n u. if n = 0 then Some [entry1] else Some [])"
    and c: "clock E = (\<lambda>n. ''2024-01-01T00:00:00'')"
  shows "refresh_feeds E (init_db k) = (fetched_world k, 1)"
proof -
  have n: "scenario_html \<noteq> []" by (simp add: scenario_html_def)
  have 0: "fetch_feed E (init_db k) fd =
     (init_db k\<lparr>fetches := 1\<rparr>,
      [\<lparr>p_title = Some ''T1'', p_url = Some ''http://a/1'', p_source = Some (f_name fd),
        p_published_date = Some ''2024-01-01T00:00:00'', p_content = Some ''Hello world''\<rparr>])" for fd
    by (simp add: fetch_feed_def f g init_db_def MAX_ARTICLES_PER_FEED_def
        entry1_def entry_published_def entry_content_def clean_html_def soup_text_scenario n)
  have 1: "fetch_feed E w fd = (w\<lparr>fetches := fetches w + 1\<rparr>, [])" if "0 < fetches w" for w fd
    using that by (simp add: fetch_feed_def f)
  have 2: "fetch_all_feeds E (init_db k) =
     (init_db k\<lparr>fetches := 6\<rparr>,
      [\<lparr>p_title = Some ''T1'', p_url = Some ''http://a/1'', p_source = Some ''TechCrunch AI'',
        p_published_date = Some ''2024-01-01T00:00:00'', p_content = Some ''Hello world''\<rparr>])"
    by (simp add: fetch_all_feeds_def FEEDS_def 0 1)
  show ?thesis
    unfolding refresh_feeds_def 2
    by (simp add: add_article_def sql_insert_def Let_def c init_db_def fetched_world_def)
qed

lemma feed_env_fields:
  "get_text feed_env = soup_text"
  "feedparser_parse feed_env = (\<lambda>n u. if n = 0 then Some [entry1] else Some [])"
  "clock feed_env = (\<lambda>n. ''2024-01-01T00:00:00'')"
  by (simp_all add: feed_env_def offline_env_def)

lemma partial_env_fields:
  "get_text partial_env = soup_text"
  "feedparser_parse partial_env = (\<lambda>n u. if n = 0 then Some [entry1] else Some [])"
  "clock partial_env = (\<lambda>n. ''2024-01-01T00:00:00'')"
  "HAS_ANTHROPIC partial_env"
  "service partial_env = (\<lambda>n t c. Some partial_reply)"
  "json_loads partial_env = (\<lambda>s. if s = partial_reply then Some partial_result else None)"
  by (simp_all add: partial_env_def feed_env_def offline_env_def)

lemma parse_partial: "parse_reply partial_env partial_reply = partial_result"
proof -
  have "partial_reply = [] @ CHR ''{'' # butlast (tl partial_reply) @ CHR ''}'' # []"
    by (simp add: partial_reply_def)
  moreover have "CHR ''{'' # butlast (tl partial_reply) @ ''}'' = partial_reply"
    by (simp add: partial_reply_def)
  ultimately show ?thesis
    using parse_reply_span[of "[]" "[]" partial_env "butlast (tl partial_reply)"]
    by (simp add: partial_env_fields)
qed

lemma process_partial:
  "k \<noteq> [] \<Longrightarrow> process_unanalyzed partial_env (fetched_world k) =
     (fetched_world k\<lparr>calls := 1, articles :=
        [(hd (articles (fetched_world k)))\<lparr>summary := Some ''s'', sentiment := Some ''Great'',
            sentiment_score := SqlReal (Finite 7), bubble_indicators := Some ''[]''\<rparr>]\<rparr>, Inr 1)"
  by (simp add: process_unanalyzed_def get_unprocessed_articles_def fetched_world_def order_by_desc_def
      sql_limit_def analyze_article_def partial_env_fields parse_partial partial_result_def
      analysis_updates_def update_article_def sql_update_def update_column_def column_of_def)


section \<open>Invariants of the rows\<close>

lemma wf_store_cong:
  "articles w' = articles w \<Longrightarrow> seq w' = seq w \<Longrightarrow> wf_store w' = wf_store w"
  by (simp add: wf_store_def)

lemma analyze_article_cases:
  "analyze_article E w a = (w', res) \<Longrightarrow>
     articles w' = articles w \<and> seq w' = seq w \<and>
     (res = Inl TypeError \<or> res = Inr PNone \<or>
      (\<exists>n t c response. service E n t c = Some response \<and> res = Inr (parse_reply E response)))"
  by (auto simp: analyze_article_def split: if_splits option.splits)

lemma py_get_dict: "py_get (PDict kvs) k d = Inr (dict_get kvs k d)"
  by (simp add: dict_get_def)

lemma analysis_updates_dict:
  "analysis_updates E (PDict kvs) =
     Inr [(''summary'', dict_get kvs ''summary'' PNone),
          (''category'', dict_get kvs ''category'' PNone),
          (''sentiment'', dict_get kvs ''sentiment'' PNone),
          (''sentiment_score'', dict_get kvs ''sentiment_score'' PNone),
          (''bubble_indicators'',
           if is_list (dict_get kvs ''bubble_indicators'' (PList []))
           then PStr (json_dumps E (dict_get kvs ''bubble_indicators'' (PList [])))
           else dict_get kvs ''bubble_indicators'' (PList []))]"
  unfolding analysis_updates_def py_get_dict by (simp add: Let_def)

lemma analysis_updates_other:
  "\<forall>kvs. result \<noteq> PDict kvs \<Longrightarrow> analysis_updates E result = Inl AttributeError"
  by (cases result) (simp_all add: analysis_updates_def)

lemma analysis_updates_plain:
  "analysis_updates E result = Inr ups \<Longrightarrow> \<forall>(k, v) \<in> set ups. plain_key k"
proof (cases result)
  case (PDict kvs)
  assume "analysis_updates E result = Inr ups"
  with PDict have "ups = [(''summary'', dict_get kvs ''summary'' PNone),
          (''category'', dict_get kvs ''category'' PNone),
          (''sentiment'', dict_get kvs ''sentiment'' PNone),
          (''sentiment_score'', dict_get kvs ''sentiment_score'' PNone),
          (''bubble_indicators'',
           if is_list (dict_get kvs ''bubble_indicators'' (PList []))
           then PStr (json_dumps E (dict_get kvs ''bubble_indicators'' (PList [])))
           else dict_get kvs ''bubble_indicators'' (PList []))]"
    by (simp add: analysis_updates_dict)
  then show ?thesis by (simp add: plain_key_def column_of_def plain_column_def)
qed (simp_all add: analysis_updates_other)

text \<open>
  An invariant of the rows carries through the loop of the pipeline when an enrichment
  with a reply of the service keeps it.
\<close>

lemma process_loop_rows:
  assumes step: "\<And>x n t c response ups. P x \<Longrightarrow> service E n t c = Some response \<Longrightarrow>
      truthy (parse_reply E response) \<Longrightarrow> analysis_updates E (parse_reply E response) = Inr ups \<Longrightarrow>
      \<forall>(k, v) \<in> set ups. bindable v \<Longrightarrow> P (put_all E ups x)"
  shows "wf_store w \<Longrightarrow> \<forall>x \<in> set (articles w). P x \<Longrightarrow>
     wf_store (fst (process_loop E w rest n)) \<and>
     map id_col (articles (fst (process_loop E w rest n))) = map id_col (articles w) \<and>
     (\<forall>x \<in> set (articles (fst (process_loop E w rest n))). P x)"
proof (induction rest arbitrary: w n)
  case Nil
  then show ?case by simp
next
  case (Cons a rest)
  obtain w1 res where an: "analyze_article E w a = (w1, res)" by (cases "analyze_article E w a")
  from analyze_article_cases[OF an] have same: "articles w1 = articles w" "seq w1 = seq w"
    and res: "res = Inl TypeError \<or> res = Inr PNone \<or>
      (\<exists>n t c response. service E n t c = Some response \<and> res = Inr (parse_reply E response))"
    by blast+
  have wf1: "wf_store w1" using Cons.prems(1) same wf_store_cong[of w1 w] by simp
  have P1: "\<forall>x \<in> set (articles w1). P x" using Cons.prems(2) same by simp
  note IH1 = Cons.IH[OF wf1 P1]
  consider (err) "res = Inl TypeError" | (none) "res = Inr PNone"
    | (reply) m t c response where "service E m t c = Some response" "res = Inr (parse_reply E response)"
    using res by blast
  then show ?case
  proof cases
    case err
    with an wf1 P1 same show ?thesis by simp
  next
    case none
    with an IH1 same show ?thesis by simp
  next
    case reply
    let ?result = "parse_reply E response"
    show ?thesis
    proof (cases "truthy ?result")
      case False
      with an reply IH1 same show ?thesis by simp
    next
      case True
      show ?thesis
      proof (cases "analysis_updates E ?result")
        case (Inl e)
        with an reply True wf1 P1 same show ?thesis by simp
      next
        case (Inr ups)
        have pl: "\<forall>(k, v) \<in> set ups. plain_key k"
          using Inr by (rule analysis_updates_plain)
        show ?thesis
        proof (cases "(\<forall>(k, v) \<in> set ups. bindable v) \<and> (ups = [] \<or> bindable_id (id_col a))")
          case False
          with update_article_plain[OF wf1 pl, where E=E and i="id_col a"]
          obtain e where "update_article E w1 (id_col a) ups = (w1, Inl e)" by auto
          with an reply True Inr wf1 P1 same show ?thesis by simp
        next
          case b: True
          let ?f = "\<lambda>x. if id_col x = id_col a then put_all E ups x else x"
          let ?w2 = "w1\<lparr>articles := map ?f (articles w1)\<rparr>"
          have up: "update_article E w1 (id_col a) ups = (?w2, Inr ())"
            using update_article_plain[OF wf1 pl, where E=E and i="id_col a"] b by simp
          have wf2: "wf_store ?w2"
            using update_article_wf[OF wf1 pl, where E=E and i="id_col a"] up by simp
          have P2: "\<forall>x \<in> set (articles ?w2). P x"
            using P1 step[OF _ reply(1) True Inr] b by auto
          have ids: "map id_col (articles ?w2) = map id_col (articles w)"
            using same put_all_id[OF pl] by (simp add: comp_def cong: if_cong)
          from Cons.IH[OF wf2 P2, of "n + 1"] ids an reply True Inr up
          show ?thesis by simp
        qed
      qed
    qed
  qed
qed


lemma add_article_rows:
  assumes "\<And>i t u s now. P \<lparr>id_col = i, title = t, url = u, source = s,
                   published_date = p_published_date a, fetched_date = now,
                   content = p_content a, summary = None, category = None,
                   sentiment = None, sentiment_score = SqlNull,
                   bubble_indicators = None, is_read = SqlInteger 0\<rparr>"
    and "\<forall>x \<in> set (articles w). P x"
  shows "\<forall>x \<in> set (articles (fst (add_article E w a))). P x"
  using sql_insert_cases[of "w\<lparr>ticks := ticks w + 1\<rparr>" a "clock E (ticks w)"] assms
  by (auto simp: add_article_def Let_def split: sum.splits)

lemma refresh_loop_rows:
  assumes ins: "\<And>a i t u s now. a \<in> set as \<Longrightarrow> P \<lparr>id_col = i, title = t, url = u, source = s,
                   published_date = p_published_date a, fetched_date = now,
                   content = p_content a, summary = None, category = None,
                   sentiment = None, sentiment_score = SqlNull,
                   bubble_indicators = None, is_read = SqlInteger 0\<rparr>"
  shows "wf_store w \<Longrightarrow> \<forall>x \<in> set (articles w). P x \<Longrightarrow>
     wf_store (fst (refresh_loop E w as n)) \<and> (\<forall>x \<in> set (articles (fst (refresh_loop E w as n))). P x)"
  using ins
proof (induction as arbitrary: w n)
  case Nil
  then show ?case by simp
next
  case (Cons a as)
  obtain w1 r where ad: "add_article E w a = (w1, r)" by (cases "add_article E w a")
  have wf1: "wf_store w1" using add_article_wf[OF Cons.prems(1), of E a] ad by simp
  have P1: "\<forall>x \<in> set (articles w1). P x"
    using add_article_rows[of P a w E] Cons.prems(2,3) ad by simp
  have ins': "\<And>a i t u s now. a \<in> set as \<Longrightarrow> P \<lparr>id_col = i, title = t, url = u, source = s,
                   published_date = p_published_date a, fetched_date = now,
                   content = p_content a, summary = None, category = None,
                   sentiment = None, sentiment_score = SqlNull,
                   bubble_indicators = None, is_read = SqlInteger 0\<rparr>"
    using Cons.prems(3) by simp
  show ?case
    using Cons.IH[OF wf1 P1 ins'] Cons.IH[OF Cons.prems(1,2) ins'] ad by simp
qed

lemma length_clean_html: "length (clean_html E c) \<le> 3000"
  by (simp add: clean_html_def)

lemma fetch_entries_sanitized:
  "fetch_entries E name t es = (t', Some as) \<Longrightarrow> \<forall>a \<in> set as. sanitized a"
proof (induction es arbitrary: t t' as)
  case Nil
  then show ?case by simp
next
  case (Cons e es)
  from Cons.prems obtain published where p: "entry_published e = Inr published"
    by (cases "entry_published e") auto
  obtain pd t1 where pt: "(case published of
                             Some s \<Rightarrow> if s \<noteq> [] then (s, t) else (clock E t, t + 1)
                           | None \<Rightarrow> (clock E t, t + 1)) = (pd, t1)"
    by (cases "(case published of
                             Some s \<Rightarrow> if s \<noteq> [] then (s, t) else (clock E t, t + 1)
                           | None \<Rightarrow> (clock E t, t + 1))")
  from Cons.prems p pt obtain as' where rest: "fetch_entries E name t1 es = (t', Some as')"
    and as: "as = \<lparr>p_title = Some (case e_title e of None \<Rightarrow> ''Untitled'' | Some x \<Rightarrow> x),
                    p_url = Some (case e_link e of None \<Rightarrow> [] | Some x \<Rightarrow> x),
                    p_source = Some name,
                    p_published_date = Some pd,
                    p_content = Some (clean_html E (entry_content e))\<rparr> # as'"
    by (auto simp: Let_def split: prod.splits option.splits)
  show ?case
    using Cons.IH[OF rest] as by (simp add: sanitized_def length_clean_html)
qed

lemma fetch_feed_sanitized:
  "fetch_feed E w f = (w', as) \<Longrightarrow>
     articles w' = articles w \<and> seq w' = seq w \<and> (\<forall>a \<in> set as. sanitized a)"
  using fetch_entries_sanitized[of E "f_name f" "ticks w"]
  by (fastforce simp: fetch_feed_def split: option.splits prod.splits)

lemma fetch_feeds_sanitized:
  "fetch_feeds E w fs acc = (w', as) \<Longrightarrow> \<forall>a \<in> set acc. sanitized a \<Longrightarrow>
     articles w' = articles w \<and> seq w' = seq w \<and> (\<forall>a \<in> set as. sanitized a)"
proof (induction fs arbitrary: w acc)
  case Nil
  then show ?case by simp
next
  case (Cons f fs)
  obtain w1 as1 where f: "fetch_feed E w f = (w1, as1)" by (cases "fetch_feed E w f")
  note 1 = fetch_feed_sanitized[OF f]
  have "fetch_feeds E w1 fs (acc @ as1) = (w', as)" using Cons.prems(1) f by simp
  moreover have "\<forall>a \<in> set (acc @ as1). sanitized a" using Cons.prems(2) 1 by auto
  ultimately show ?case using Cons.IH 1 by metis
qed

lemma refresh_feeds_rows:
  assumes ins: "\<And>i t u s pd now c. length c \<le> 3000 \<Longrightarrow> P \<lparr>id_col = i, title = t, url = u, source = s,
                   published_date = pd, fetched_date = now,
                   content = Some c, summary = None, category = None,
                   sentiment = None, sentiment_score = SqlNull,
                   bubble_indicators = None, is_read = SqlInteger 0\<rparr>"
    and ins0: "\<And>i t u s pd now. P \<lparr>id_col = i, title = t, url = u, source = s,
                   published_date = pd, fetched_date = now,
                   content = None, summary = None, category = None,
                   sentiment = None, sentiment_score = SqlNull,
                   bubble_indicators = None, is_read = SqlInteger 0\<rparr>"
    and wf: "wf_store w" and P: "\<forall>x \<in> set (articles w). P x"
  shows "wf_store (fst (refresh_feeds E w)) \<and> (\<forall>x \<in> set (articles (fst (refresh_feeds E w))). P x)"
proof -
  obtain w1 as where f: "fetch_all_feeds E w = (w1, as)" by (cases "fetch_all_feeds E w")
  then have 1: "articles w1 = articles w" "seq w1 = seq w" "\<forall>a \<in> set as. sanitized a"
    using fetch_feeds_sanitized[of E w FEEDS "[]" w1 as] by (simp_all add: fetch_all_feeds_def)
  have wf1: "wf_store w1" using wf 1 wf_store_cong[of w1 w] by simp
  have P1: "\<forall>x \<in> set (articles w1). P x" using P 1 by simp
  have "P \<lparr>id_col = i, title = t, url = u, source = s,
                   published_date = p_published_date a, fetched_date = now,
                   content = p_content a, summary = None, category = None,
                   sentiment = None, sentiment_score = SqlNull,
                   bubble_indicators = None, is_read = SqlInteger 0\<rparr>" if "a \<in> set as" for a i t u s now
  proof (cases "p_content a")
    case None
    then show ?thesis using ins0 by simp
  next
    case (Some c)
    with that 1(3) have "length c \<le> 3000" by (auto simp: sanitized_def)
    with Some show ?thesis using ins by simp
  qed
  from refresh_loop_rows[of as P, OF this wf1 P1, of E 0] f show ?thesis
    by (simp add: refresh_feeds_def)
qed

lemma reachable_rows:
  assumes ins: "\<And>i t u s pd now c. length c \<le> 3000 \<Longrightarrow> P \<lparr>id_col = i, title = t, url = u, source = s,
                   published_date = pd, fetched_date = now,
                   content = Some c, summary = None, category = None,
                   sentiment = None, sentiment_score = SqlNull,
                   bubble_indicators = None, is_read = SqlInteger 0\<rparr>"
    and ins0: "\<And>i t u s pd now. P \<lparr>id_col = i, title = t, url = u, source = s,
                   published_date = pd, fetched_date = now,
                   content = None, summary = None, category = None,
                   sentiment = None, sentiment_score = SqlNull,
                   bubble_indicators = None, is_read = SqlInteger 0\<rparr>"
    and enr: "\<And>x n t c response ups. P x \<Longrightarrow> service E n t c = Some response \<Longrightarrow>
      truthy (parse_reply E response) \<Longrightarrow> analysis_updates E (parse_reply E response) = Inr ups \<Longrightarrow>
      \<forall>(k, v) \<in> set ups. bindable v \<Longrightarrow> P (put_all E ups x)"
    and rd: "\<And>x. P x \<Longrightarrow> P (put_all E [(''is_read'', PInt 1)] x)"
  shows "reachable E w \<Longrightarrow> wf_store w \<and> (\<forall>x \<in> set (articles w). P x)"
proof (induction rule: reachable.induct)
  case (reach_init k)
  show ?case by (simp add: init_db_def wf_store_def)
next
  case (reach_refresh w)
  then have wf: "wf_store w" and P: "\<forall>x \<in> set (articles w). P x" by blast+
  show ?case by (rule refresh_feeds_rows[where P=P, OF ins ins0 wf P])
next
  case (reach_process w)
  then have wf: "wf_store w" and P: "\<forall>x \<in> set (articles w). P x" by blast+
  have "wf_store (fst (process_loop E w (get_unprocessed_articles w 5) 0)) \<and>
     map id_col (articles (fst (process_loop E w (get_unprocessed_articles w 5) 0))) =
       map id_col (articles w) \<and>
     (\<forall>x \<in> set (articles (fst (process_loop E w (get_unprocessed_articles w 5) 0))). P x)"
    by (rule process_loop_rows[where P=P, OF enr wf P])
  then show ?case unfolding process_unanalyzed_def by blast
next
  case (reach_analyze w)
  then have wf: "wf_store w" and P: "\<forall>x \<in> set (articles w). P x" by blast+
  have "wf_store (fst (process_loop E w (get_unprocessed_articles w 5) 0)) \<and>
     map id_col (articles (fst (process_loop E w (get_unprocessed_articles w 5) 0))) =
       map id_col (articles w) \<and>
     (\<forall>x \<in> set (articles (fst (process_loop E w (get_unprocessed_articles w 5) 0))). P x)"
    by (rule process_loop_rows[where P=P, OF enr wf P])
  then have "wf_store (fst (process_unanalyzed E w)) \<and>
      (\<forall>x \<in> set (articles (fst (process_unanalyzed E w))). P x)"
    unfolding process_unanalyzed_def by blast
  with wf P show ?case unfolding api_analyze_def by (cases "API_KEY w = []") simp_all
next
  case (reach_article w i)
  then have wf: "wf_store w" and P: "\<forall>x \<in> set (articles w). P x" by blast+
  have pl: "\<forall>(k, v) \<in> set [(''is_read'', PInt 1)]. plain_key k"
    by (simp add: plain_key_def column_of_def plain_column_def)
  let ?w' = "w\<lparr>articles := map (\<lambda>x. if id_col x = i then put_all E [(''is_read'', PInt 1)] x else x) (articles w)\<rparr>"
  have up: "fst (update_article E w i [(''is_read'', PInt 1)]) = ?w' \<or>
            fst (update_article E w i [(''is_read'', PInt 1)]) = w"
    using update_article_plain[OF wf pl, where E=E and i=i]
    by (cases "(\<forall>(k, v) \<in> set [(''is_read'', PInt 1)]. bindable v) \<and>
                ([(''is_read'', PInt 1)] = [] \<or> bindable_id i)") auto
  have idf: "id_col (put_all E [(''is_read'', PInt 1)] x) = id_col x"
    "url (put_all E [(''is_read'', PInt 1)] x) = url x" for x
    using put_all_id[OF pl] put_all_url[OF pl] by blast+
  have wf': "wf_store ?w'"
    by (rule wf_store_map[OF wf]) (simp add: idf del: put_all.simps)
  have P': "\<forall>x \<in> set (articles ?w'). P x"
    using P rd by (auto simp del: put_all.simps)
  have "fst (api_article E w i) = w \<or> fst (api_article E w i) = ?w'"
  proof (cases "get_article w i")
    case None
    then show ?thesis by (simp add: api_article_def)
  next
    case (Some a)
    then have "fst (api_article E w i) = fst (update_article E w i [(''is_read'', PInt 1)])"
      by (simp add: api_article_def split: prod.splits sum.splits)
    with up show ?thesis by (simp only:) blast
  qed
  then show ?case
  proof
    assume "fst (api_article E w i) = w"
    with wf P show ?thesis by (simp only:) 
  next
    assume "fst (api_article E w i) = ?w'"
    with wf' P' show ?thesis by (simp only:) 
  qed
next
  case (reach_config w k)
  then have wf: "wf_store w" and P: "\<forall>x \<in> set (articles w). P x" by blast+
  have "articles (api_config w k) = articles w" "seq (api_config w k) = seq w"
    by (simp_all add: api_config_def)
  with wf P wf_store_cong[of "api_config w k" w] show ?case by simp
qed


section \<open>The sanitizer\<close>

lemma put_column_content: "col \<noteq> Content \<Longrightarrow> content (put_column E col v r) = content r"
  by (cases col) (auto simp: put_column_def not_null_def split: sum.splits option.splits)

lemma column_of_content: "column_of k = Some Content \<Longrightarrow> k = ''content''"
  by (simp add: column_of_def split: if_splits)

lemma put_all_content:
  "\<forall>(k, v) \<in> set ups. k \<noteq> ''content'' \<Longrightarrow> content (put_all E ups r) = content r"
proof (induction ups arbitrary: r)
  case Nil
  then show ?case by simp
next
  case (Cons kv ups)
  obtain k v where kv: "kv = (k, v)" by (cases kv)
  with Cons.prems have k: "k \<noteq> ''content''" by simp
  have "content (case column_of k of None \<Rightarrow> r | Some col \<Rightarrow> put_column E col v r) = content r"
  proof (cases "column_of k")
    case None
    then show ?thesis by simp
  next
    case (Some col)
    with k column_of_content have "col \<noteq> Content" by blast
    with Some show ?thesis by (simp add: put_column_content)
  qed
  moreover from Cons.prems have "\<forall>(k, v) \<in> set ups. k \<noteq> ''content''" by simp
  ultimately show ?case using Cons.IH kv by simp
qed

lemma analysis_updates_keys:
  "analysis_updates E result = Inr ups \<Longrightarrow>
     map fst ups = [''summary'', ''category'', ''sentiment'', ''sentiment_score'',
                    ''bubble_indicators'']"
proof (cases result)
  case (PDict kvs)
  assume "analysis_updates E result = Inr ups"
  with PDict show ?thesis by (auto simp: analysis_updates_dict)
qed (simp_all add: analysis_updates_other)

lemma analysis_updates_content:
  assumes "analysis_updates E result = Inr ups"
  shows "content (put_all E ups r) = content r"
proof -
  have "\<forall>k \<in> set (map fst ups). k \<noteq> ''content''"
    unfolding analysis_updates_keys[OF assms] by simp
  then have "\<forall>(k, v) \<in> set ups. k \<noteq> ''content''" by auto
  then show ?thesis by (rule put_all_content)
qed

lemma reachable_content_bounded:
  "reachable E w \<Longrightarrow> \<forall>r \<in> set (articles w). content_bounded r"
proof -
  assume r: "reachable E w"
  have "wf_store w \<and> (\<forall>x \<in> set (articles w). content_bounded x)"
  proof (rule reachable_rows[where P=content_bounded and E=E, OF _ _ _ _ r])
    fix x n t c response ups
    assume "content_bounded x" "analysis_updates E (parse_reply E response) = Inr ups"
    then show "content_bounded (put_all E ups x)"
      by (simp add: content_bounded_def analysis_updates_content)
  next
    fix x assume "content_bounded x"
    then show "content_bounded (put_all E [(''is_read'', PInt 1)] x)"
      by (simp add: content_bounded_def put_all_content del: put_all.simps)
  qed (simp_all add: content_bounded_def)
  then show ?thesis by blast
qed

lemma reachable_wf: "reachable E w \<Longrightarrow> wf_store w"
  using reachable_rows[where P="\<lambda>x. True" and E=E and w=w] by simp

text \<open>
  C8 (as amended). The sanitized content is the first 3000 characters of the text that
  BeautifulSoup extracts (tags stripped, text nodes stripped and joined by one space), so
  its length is at most 3000. When the extracted text is trimmed, the sanitized content
  has no white space at its start, and it is the whole trimmed text when that has at
  most 3000 characters; a longer text is cut, wherever the cut falls. The markup of the
  scenario, for which BeautifulSoup gives \<^verbatim>\<open>Hello world\<close>, sanitizes to that text. In
  every reachable state every stored content has at most 3000 characters.
\<close>

theorem clean_html_truncates:
  "length (clean_html E c) \<le> 3000 \<and>
   (c \<noteq> [] \<longrightarrow> clean_html E c = take 3000 (get_text E c)) \<and>
   (c \<noteq> [] \<and> trimmed (get_text E c) \<longrightarrow>
      (clean_html E c = [] \<or> \<not> is_space (hd (clean_html E c))) \<and>
      (length (get_text E c) \<le> 3000 \<longrightarrow> clean_html E c = get_text E c \<and> trimmed (clean_html E c))) \<and>
   (get_text E scenario_html = ''Hello world'' \<longrightarrow> clean_html E scenario_html = ''Hello world'') \<and>
   (reachable E w \<longrightarrow> (\<forall>r \<in> set (articles w). content_bounded r))"
proof (intro conjI impI)
  show "length (clean_html E c) \<le> 3000" by (rule length_clean_html)
  show "clean_html E c = take 3000 (get_text E c)" if "c \<noteq> []"
    using that by (simp add: clean_html_def)
  show "clean_html E c = [] \<or> \<not> is_space (hd (clean_html E c))" if "c \<noteq> [] \<and> trimmed (get_text E c)"
    using that by (cases "get_text E c") (auto simp: clean_html_def trimmed_def)
  show "clean_html E c = get_text E c" if "c \<noteq> [] \<and> trimmed (get_text E c)" "length (get_text E c) \<le> 3000"
    using that by (simp add: clean_html_def)
  show "trimmed (clean_html E c)" if "c \<noteq> [] \<and> trimmed (get_text E c)" "length (get_text E c) \<le> 3000"
    using that by (simp add: clean_html_def)
  show "clean_html E scenario_html = ''Hello world''" if "get_text E scenario_html = ''Hello world''"
    using that by (simp add: clean_html_def scenario_html_def)
  show "\<forall>r \<in> set (articles w). content_bounded r" if "reachable E w"
    using that by (rule reachable_content_bounded)
qed

lemma soup_text_long: "soup_text long_html = replicate 2999 CHR ''a'' @ '' b''"
  by (simp add: soup_text_def)

lemma long_html_nonempty: "long_html \<noteq> []"
  by (simp add: long_html_def)

text \<open>
  C8 as stated fails for a text that is cut: the text of \<open>long_html\<close> is trimmed and
  has 3001 characters, the 3000th being the separator, so the sanitized content ends in
  a space.
\<close>

theorem clean_html_trailing_space:
  "trimmed (get_text feed_env long_html) \<and> \<not> trimmed (clean_html feed_env long_html)"
proof -
  have t: "take 3000 (replicate 2999 CHR ''a'' @ '' b'') = replicate 2999 CHR ''a'' @ '' ''"
    by simp
  have h: "hd (replicate 2999 CHR ''a'' @ xs) = CHR ''a''" for xs
    by (simp add: hd_append)
  show ?thesis
    by (simp add: feed_env_fields soup_text_long clean_html_def long_html_nonempty t trimmed_def h is_space_def)
qed

lemma reachable_fetched: "reachable feed_env (fetched_world k)"
  using reach_refresh[OF reach_init, of feed_env k]
  by (simp add: refresh_feed_env[OF feed_env_fields])

theorem clean_html_truncates_witness:
  "scenario_html \<noteq> [] \<and> trimmed (get_text feed_env scenario_html) \<and>
   length (get_text feed_env scenario_html) \<le> 3000 \<and>
   get_text feed_env scenario_html = ''Hello world'' \<and>
   clean_html feed_env scenario_html = ''Hello world'' \<and>
   trimmed (clean_html feed_env scenario_html) \<and>
   reachable feed_env (fetched_world []) \<and>
   list_all content_bounded (articles (fetched_world [])) \<and>
   map content (articles (fetched_world [])) = [Some ''Hello world'']"
proof -
  have g: "get_text feed_env scenario_html = ''Hello world''"
    by (simp add: feed_env_fields soup_text_scenario)
  have t: "trimmed ''Hello world''" by (simp add: trimmed_def is_space_def)
  have n: "scenario_html \<noteq> []" by (simp add: scenario_html_def)
  show ?thesis
    using clean_html_truncates[of feed_env scenario_html "fetched_world []"] g t n reachable_fetched[of "[]"]
    by (simp add: list_all_iff fetched_world_def)
qed


section \<open>What an enrichment stores\<close>

lemma sql_of_bindable: "bindable v \<Longrightarrow> to_sql E v = Inr (sql_of E v)"
  using bindable_to_sql[of v E] by (auto simp: sql_of_def)




lemma put_analysis:
  assumes "bindable s" "bindable c" "bindable t" "bindable sc" "bindable b"
  shows "put_all E [(''summary'', s), (''category'', c), (''sentiment'', t),
                    (''sentiment_score'', sc), (''bubble_indicators'', b)] r =
         r\<lparr>summary := text_affinity E (sql_of E s), category := text_affinity E (sql_of E c),
           sentiment := text_affinity E (sql_of E t),
           sentiment_score := real_affinity E (sql_of E sc),
           bubble_indicators := text_affinity E (sql_of E b)\<rparr>"
  using assms by (simp add: put_column_def sql_of_bindable column_of_def)

lemma put_is_read:
  "put_all E [(''is_read'', PInt 1)] r = r\<lparr>is_read := SqlInteger 1\<rparr>"
  by (simp add: put_column_def to_sql_def column_of_def)

lemma analysis_updates_dict':
  "analysis_updates E (PDict kvs) =
     Inr [(''summary'', dict_get kvs ''summary'' PNone),
          (''category'', dict_get kvs ''category'' PNone),
          (''sentiment'', dict_get kvs ''sentiment'' PNone),
          (''sentiment_score'', dict_get kvs ''sentiment_score'' PNone),
          (''bubble_indicators'', bubble_value E (dict_get kvs ''bubble_indicators'' (PList [])))]"
  by (simp add: analysis_updates_dict bubble_value_def)










lemma get_fetched: "get_article (fetched_world k) 1 = Some (hd (articles (fetched_world k)))"
  by (simp add: get_article_def fetched_world_def)




section \<open>Labels and score\<close>

lemma label_text:
  "label_of ls v \<Longrightarrow> (case text_affinity E (sql_of E v) of None \<Rightarrow> True | Some s \<Rightarrow> s \<in> set ls)"
  by (cases v) (simp_all add: sql_of_def to_sql_def)

lemma score_real: "score_value v \<Longrightarrow> score_in_range (real_affinity E (sql_of E v))"
proof (cases v)
  case (PInt i)
  assume "score_value v"
  with PInt have i: "- 1 \<le> i" "i \<le> 1" by simp_all
  then have "- (2 ^ 63) \<le> i \<and> i < 2 ^ 63" by simp
  with PInt i show ?thesis
    by (simp add: sql_of_def to_sql_def score_in_range_def)
next
  case (PFloat f)
  assume "score_value v"
  with PFloat show ?thesis
    by (cases f) (simp_all add: sql_of_def to_sql_def score_in_range_def)
qed (simp_all add: sql_of_def to_sql_def score_in_range_def)

lemma conforming_update_valid:
  assumes u: "analysis_updates E result = Inr ups" and b: "\<forall>(k, v) \<in> set ups. bindable v"
    and c: "conforming_result result"
  shows "valid_analysis (put_all E ups x)"
proof (cases result)
  case (PDict kvs)
  let ?s = "dict_get kvs ''summary'' PNone" and ?c = "dict_get kvs ''category'' PNone"
  let ?t = "dict_get kvs ''sentiment'' PNone" and ?sc = "dict_get kvs ''sentiment_score'' PNone"
  let ?b = "bubble_value E (dict_get kvs ''bubble_indicators'' (PList []))"
  have ups: "ups = [(''summary'', ?s), (''category'', ?c), (''sentiment'', ?t),
                    (''sentiment_score'', ?sc), (''bubble_indicators'', ?b)]"
    using u PDict by (simp add: analysis_updates_dict')
  with b have bs: "bindable ?s" "bindable ?c" "bindable ?t" "bindable ?sc" "bindable ?b" by simp_all
  note p = put_analysis[OF bs, of E x]
  from c PDict have l: "label_of SENTIMENTS ?t" "label_of CATEGORIES ?c" "score_value ?sc"
    by (simp_all add: conforming_result_def py_get_dict del: py_get.simps)
  show ?thesis
    unfolding ups p valid_analysis_def
    using label_text[OF l(1), of E] label_text[OF l(2), of E] score_real[OF l(3), of E]
    by simp
qed (use u in \<open>simp_all add: analysis_updates_other\<close>)

text \<open>
  C4 (as amended). When every reply of the service that parses to a truthy result keeps
  to the prompt (its sentiment and category are absent, null or one of the labels, its
  score is absent, null or a number from -1 to 1), then in every reachable state every
  stored article has a sentiment that is NULL or one of the three labels, a category
  that is NULL or one of the seven labels, and, where the sentiment is not NULL, a score
  that is NULL or lies between -1 and 1. The store itself checks none of this.
\<close>

theorem conforming_replies_keep_analysis_valid:
  "conforming E \<Longrightarrow> reachable E w \<Longrightarrow> \<forall>r \<in> set (articles w). valid_analysis r"
proof -
  assume c: "conforming E" and r: "reachable E w"
  have "wf_store w \<and> (\<forall>x \<in> set (articles w). valid_analysis x)"
  proof (rule reachable_rows[where P=valid_analysis and E=E, OF _ _ _ _ r])
    fix x n t ct response ups
    assume "service E n t ct = Some response" "truthy (parse_reply E response)"
      and u: "analysis_updates E (parse_reply E response) = Inr ups"
      and b: "\<forall>(k, v) \<in> set ups. bindable v"
    with c have "conforming_result (parse_reply E response)"
      unfolding conforming_def by blast
    with u b show "valid_analysis (put_all E ups x)" by (rule conforming_update_valid)
  next
    fix x assume "valid_analysis x"
    then show "valid_analysis (put_all E [(''is_read'', PInt 1)] x)"
      unfolding put_is_read by (simp add: valid_analysis_def)
  qed (simp_all add: valid_analysis_def)
  then show ?thesis by blast
qed

lemma reachable_partial:
  "reachable partial_env (fst (process_unanalyzed partial_env (fetched_world ''key'')))"
  using reach_process[OF reach_refresh[OF reach_init, of partial_env "''key''"]]
  by (simp add: refresh_feed_env[OF partial_env_fields(1,2,3)])

text \<open>
  C4 as stated fails: the pipeline stores whatever the reply carries. After one refresh
  and one run of the pipeline with a reply whose sentiment is \<^verbatim>\<open>Great\<close> and whose score
  is 7, the stored article has that sentiment and that score.
\<close>

theorem unvalidated_reply_is_stored:
  "reachable partial_env (fst (process_unanalyzed partial_env (fetched_world ''key''))) \<and>
   map sentiment (articles (fst (process_unanalyzed partial_env (fetched_world ''key''))))
     = [Some ''Great''] \<and>
   map sentiment_score (articles (fst (process_unanalyzed partial_env (fetched_world ''key''))))
     = [SqlReal (Finite 7)] \<and>
   \<not> list_all valid_analysis (articles (fst (process_unanalyzed partial_env (fetched_world ''key''))))"
  using reachable_partial
  by (simp add: process_partial valid_analysis_def SENTIMENTS_def)

lemma scenario_env_fields:
  "get_text scenario_env = soup_text"
  "feedparser_parse scenario_env = (\<lambda>n u. if n = 0 then Some [entry1] else Some [])"
  "clock scenario_env = (\<lambda>n. ''2024-01-01T00:00:00'')"
  "HAS_ANTHROPIC scenario_env"
  "service scenario_env = (\<lambda>n t c. Some scenario_reply)"
  "json_loads scenario_env = (\<lambda>s. if s = scenario_text then Some scenario_result else None)"
  by (simp_all add: scenario_env_def feed_env_def offline_env_def)

lemma parse_scenario: "parse_reply scenario_env scenario_reply = scenario_result"
proof -
  have r: "scenario_reply = ''Here you go: '' @ CHR ''{'' # scenario_body @ CHR ''}'' # '' thanks''"
    by (simp add: scenario_reply_def scenario_text_def)
  have "parse_reply scenario_env (''Here you go: '' @ CHR ''{'' # scenario_body @ CHR ''}'' # '' thanks'') =
          (case json_loads scenario_env (CHR ''{'' # scenario_body @ ''}'') of None \<Rightarrow> PNone | Some v \<Rightarrow> v)"
    by (rule parse_reply_span) simp_all
  then show ?thesis unfolding r[symmetric]
    by (simp add: scenario_env_fields scenario_text_def)
qed

lemma conforming_scenario: "conforming scenario_env"
  unfolding conforming_def
  by (simp add: scenario_env_fields parse_scenario)
     (simp add: scenario_result_def conforming_result_def SENTIMENTS_def CATEGORIES_def)

lemma process_scenario:
  \<open>process_unanalyzed scenario_env (fetched_world ''key'') =
     (fetched_world ''key''\<lparr>calls := 1, articles :=
        [(hd (articles (fetched_world ''key'')))\<lparr>summary := Some ''s'', category := Some ''AI Market'',
            sentiment := Some ''Bullish'', sentiment_score := SqlReal (Finite 0.5),
            bubble_indicators := Some ''["x"]''\<rparr>]\<rparr>, Inr 1)\<close>
  by (simp add: process_unanalyzed_def get_unprocessed_articles_def fetched_world_def order_by_desc_def
      sql_limit_def analyze_article_def scenario_env_fields parse_scenario scenario_result_def
      analysis_updates_def update_article_def sql_update_def update_column_def column_of_def
      encode_str_def escape_char_def)

theorem conforming_replies_keep_analysis_valid_witness:
  "conforming scenario_env \<and>
   reachable scenario_env (fst (process_unanalyzed scenario_env (fetched_world ''key''))) \<and>
   map sentiment (articles (fst (process_unanalyzed scenario_env (fetched_world ''key''))))
     = [Some ''Bullish''] \<and>
   list_all valid_analysis (articles (fst (process_unanalyzed scenario_env (fetched_world ''key''))))"
proof -
  have r: "reachable scenario_env (fst (process_unanalyzed scenario_env (fetched_world ''key'')))"
    using reach_process[OF reach_refresh[OF reach_init, of scenario_env "''key''"]]
    by (simp add: refresh_feed_env[OF scenario_env_fields(1,2,3)])
  have s: "map sentiment (articles (fst (process_unanalyzed scenario_env (fetched_world ''key''))))
     = [Some ''Bullish'']"
    by (simp add: process_scenario)
  show ?thesis
    using conforming_replies_keep_analysis_valid[OF conforming_scenario r] conforming_scenario r s
    by (simp add: list_all_iff)
qed


end
